theory Spec2Isabelle
  imports Main "HOL-Library.AList" "HOL-Library.Monad_Syntax"
begin

section \<open>JavaScript values\<close>

text \<open>
  The helpers of \<^verbatim>\<open>src/metadataExtractor/helpers/metadata.js\<close> work on plain
  JSON-like data: the GraphQL reply, the parsed YAML of a citation file, the metadata
  record that is built, mutated and returned. A value is modelled by \<open>jsval\<close>.
  An object is the list of its own properties in enumeration order (the order of
  \<^verbatim>\<open>Object.keys\<close>) and a string is a list of code units. Numbers are the
  integral ones; the places where IEEE doubles round are written out where they are used.
  A \<^verbatim>\<open>TypeError\<close> (property read on \<^verbatim>\<open>null\<close> or
  \<^verbatim>\<open>undefined\<close>, call of something that is not a function, iteration over
  something that is not iterable) is the result \<open>None\<close>.
\<close>

datatype jsval =
    JUndefined
  | JNull
  | JBool bool
  | JNum int
  | JStr string
  | JArr "jsval list"
  | JObj "(string \<times> jsval) list"

text \<open>Truthiness, as \<^verbatim>\<open>if (x)\<close> and \<^verbatim>\<open>x || y\<close> read it.\<close>

fun truthy :: "jsval \<Rightarrow> bool" where
  "truthy JUndefined = False"
| "truthy JNull = False"
| "truthy (JBool b) = b"
| "truthy (JNum n) = (n \<noteq> 0)"
| "truthy (JStr s) = (s \<noteq> [])"
| "truthy (JArr xs) = True"
| "truthy (JObj al) = True"

text \<open>\<^verbatim>\<open>x || y\<close>\<close>

definition js_or :: "jsval \<Rightarrow> jsval \<Rightarrow> jsval" where
  "js_or x y = (if truthy x then x else y)"

type_synonym jsobj = "(string \<times> jsval) list"

text \<open>
  \<^verbatim>\<open>obj[key]\<close> and \<^verbatim>\<open>obj.key\<close> for a string key: a
  \<^verbatim>\<open>TypeError\<close> on \<^verbatim>\<open>null\<close> and \<^verbatim>\<open>undefined\<close>,
  the property of an object (\<^verbatim>\<open>undefined\<close> where there is none), the
  \<^verbatim>\<open>length\<close> of an array or string. Numeric index keys are never read
  by the code modelled here.
\<close>

definition lookup :: "jsobj \<Rightarrow> string \<Rightarrow> jsval" where
  "lookup al k = (case map_of al k of None \<Rightarrow> JUndefined | Some v \<Rightarrow> v)"

fun js_get :: "jsval \<Rightarrow> string \<Rightarrow> jsval option" where
  "js_get JUndefined k = None"
| "js_get JNull k = None"
| "js_get (JObj al) k = Some (lookup al k)"
| "js_get (JArr xs) k = Some (if k = ''length'' then JNum (int (length xs)) else JUndefined)"
| "js_get (JStr s) k = Some (if k = ''length'' then JNum (int (length s)) else JUndefined)"
| "js_get (JBool b) k = Some JUndefined"
| "js_get (JNum n) k = Some JUndefined"

text \<open>
  \<^verbatim>\<open>x > 0\<close> for the value of a \<^verbatim>\<open>length\<close> property: a number is
  compared, \<^verbatim>\<open>undefined\<close> converts to NaN and \<^verbatim>\<open>null\<close> to 0
  (both not greater), a boolean to 0 or 1. A string, array or object operand can only
  come from a mapping that has a property named \<^verbatim>\<open>length\<close>; JavaScript
  converts it to a number first, which is not modelled: it is taken as not greater, and
  no property below is about such a mapping.
\<close>

fun js_gt0 :: "jsval \<Rightarrow> bool" where
  "js_gt0 (JNum n) = (0 < n)"
| "js_gt0 (JBool b) = b"
| "js_gt0 v = False"

text \<open>
  \<^verbatim>\<open>x === y\<close>. Primitive values are compared by value. Arrays and objects are
  compared by reference; wherever the code below compares, the two operands come from
  different nodes of parsed JSON, which never share a reference.
\<close>

fun strictEq :: "jsval \<Rightarrow> jsval \<Rightarrow> bool" where
  "strictEq (JArr xs) y = False"
| "strictEq (JObj al) y = False"
| "strictEq x y = (x = y)"

text \<open>
  \<^verbatim>\<open>xs.map(f)\<close>: a \<^verbatim>\<open>TypeError\<close> when the receiver is not an
  array, or when \<open>f\<close> throws on an element.
\<close>

fun mapM :: "('a \<Rightarrow> 'b option) \<Rightarrow> 'a list \<Rightarrow> 'b list option" where
  "mapM f [] = Some []"
| "mapM f (x # xs) =
     (case f x of
        None \<Rightarrow> None
      | Some y \<Rightarrow> (case mapM f xs of None \<Rightarrow> None | Some ys \<Rightarrow> Some (y # ys)))"

fun js_map :: "(jsval \<Rightarrow> jsval option) \<Rightarrow> jsval \<Rightarrow> jsval option" where
  "js_map f (JArr xs) = map_option JArr (mapM f xs)"
| "js_map f v = None"

text \<open>
  What \<^verbatim>\<open>for (var item of x)\<close> runs over: the elements of an array, the
  characters of a string; anything else is not iterable.
\<close>

fun iterate :: "jsval \<Rightarrow> jsval list option" where
  "iterate (JArr xs) = Some xs"
| "iterate (JStr s) = Some (map (\<lambda>c. JStr [c]) s)"
| "iterate v = None"

subsection \<open>Strings\<close>

text \<open>
  A string is a list of code units; the type \<open>char\<close> covers the code units below 256.
  \<open>decimal\<close> is the decimal numeral of a natural number, which is what
  \<^verbatim>\<open>Number.prototype.toString\<close> gives for an integral number up to
  \<open>2^53\<close>; larger doubles (printed by JavaScript with the shortest digits that
  read back, or with an exponent) are outside what the theorems below use.
\<close>

fun decimal :: "nat \<Rightarrow> string" where
  "decimal n =
     (if n < 10 then [''0123456789'' ! n]
      else decimal (n div 10) @ [''0123456789'' ! (n mod 10)])"

declare decimal.simps [simp del]

fun joinWith :: "string \<Rightarrow> string list \<Rightarrow> string" where
  "joinWith sep [] = []"
| "joinWith sep [s] = s"
| "joinWith sep (s # t # ss) = s @ sep @ joinWith sep (t # ss)"

text \<open>
  \<^verbatim>\<open>String(x)\<close>, also what a template literal does to a substitution.
  \<^verbatim>\<open>Array.prototype.join\<close> prints \<^verbatim>\<open>null\<close> and
  \<^verbatim>\<open>undefined\<close> elements as the empty string.
\<close>

fun js_toString :: "jsval \<Rightarrow> string" where
  "js_toString JUndefined = ''undefined''"
| "js_toString JNull = ''null''"
| "js_toString (JBool b) = (if b then ''true'' else ''false'')"
| "js_toString (JNum n) = (if n < 0 then CHR ''-'' # decimal (nat (- n)) else decimal (nat n))"
| "js_toString (JStr s) = s"
| "js_toString (JArr xs) =
     joinWith '','' (map (\<lambda>x. if x = JUndefined \<or> x = JNull then [] else js_toString x) xs)"
| "js_toString (JObj al) = ''[object Object]''"

text \<open>
  White space as \<^verbatim>\<open>\s\<close> and \<^verbatim>\<open>trim\<close> read it, among the code
  units below 256: tab, line feed, vertical tab, form feed, carriage return, space and
  the no-break space.
\<close>

definition isSpace :: "char \<Rightarrow> bool" where
  "isSpace c \<longleftrightarrow> c \<in> set [CHR 0x09, CHR 0x0A, CHR 0x0B, CHR 0x0C, CHR 0x0D, CHR 0x20, CHR 0xA0]"

definition trim :: "string \<Rightarrow> string" where
  "trim s = rev (dropWhile isSpace (rev (dropWhile isSpace s)))"

definition startsWith :: "string \<Rightarrow> string \<Rightarrow> bool" where
  "startsWith s p \<longleftrightarrow> take (length p) s = p"

definition endsWith :: "string \<Rightarrow> string \<Rightarrow> bool" where
  "endsWith s p \<longleftrightarrow> length p \<le> length s \<and> drop (length s - length p) s = p"

text \<open>
  Upper case of an ASCII letter. \<^verbatim>\<open>toUpperCase\<close> maps the letters a-z, turns
  the sharp s into \<^verbatim>\<open>SS\<close> and sends every other code unit from 128 on to
  code units from 128 on; the code below only compares the result with ASCII names, so
  those code units are left as they are. The same function is how a regular expression
  with the flag \<^verbatim>\<open>i\<close> compares a code unit with an ASCII letter.
\<close>

definition upperChar :: "char \<Rightarrow> char" where
  "upperChar c =
     (case map_of (zip ''abcdefghijklmnopqrstuvwxyz'' ''ABCDEFGHIJKLMNOPQRSTUVWXYZ'') c of
        Some u \<Rightarrow> u
      | None \<Rightarrow> c)"

definition toUpperCase :: "string \<Rightarrow> string" where
  "toUpperCase s = concat (map (\<lambda>c. if c = CHR 0xDF then ''SS'' else [upperChar c]) s)"

section \<open>Metadata normalizer\<close>

text \<open>\<^verbatim>\<open>removeNull\<close> (metadata.js, lines 116-118): \<^verbatim>\<open>array.filter(val => val !== null)\<close>.\<close>

definition removeNull :: "jsval list \<Rightarrow> jsval list" where
  "removeNull array = filter (\<lambda>val. \<not> strictEq val JNull) array"

text \<open>\<^verbatim>\<open>buildTopics\<close> (lines 132-147).\<close>

definition topicItem :: "jsval \<Rightarrow> jsval option" where
  "topicItem node = do {
     url \<leftarrow> js_get node ''url'';
     topic \<leftarrow> js_get node ''topic'';
     name \<leftarrow> js_get topic ''name'';
     Some (JObj [(''uri'', url), (''term'', name), (''vocabulary'', JStr [])])
   }"

definition buildTopics :: "jsval \<Rightarrow> jsval option" where
  "buildTopics githubObject = do {
     repositoryTopics \<leftarrow> js_get githubObject ''repositoryTopics'';
     nodes \<leftarrow> js_get repositoryTopics ''nodes'';
     len \<leftarrow> js_get nodes ''length'';
     if js_gt0 len then js_map topicItem nodes else Some (JArr [])
   }"

text \<open>
  \<^verbatim>\<open>buildAuthors\<close> (lines 162-184). \<open>mkAuthor\<close> is the object built for
  one contributor; \<open>authorsLoop\<close> is the \<^verbatim>\<open>forEach\<close> with the array
  \<^verbatim>\<open>authors\<close> it pushes to.
\<close>

definition mkAuthor :: "jsval \<Rightarrow> jsobj option" where
  "mkAuthor contributor = do {
     name \<leftarrow> js_get contributor ''name'';
     email \<leftarrow> js_get contributor ''email'';
     Some [(''name'', name), (''type'', JStr ''person''),
           (''email'', js_or email (JStr [])), (''maintainer'', JBool False)]
   }"

fun authorsLoop :: "jsval list \<Rightarrow> jsobj list \<Rightarrow> jsobj list option" where
  "authorsLoop [] authors = Some authors"
| "authorsLoop (contributor # rest) authors =
     (case mkAuthor contributor of
        None \<Rightarrow> None
      | Some author \<Rightarrow>
          if list_ex (\<lambda>existingAuthor.
                strictEq (lookup existingAuthor ''email'') (lookup author ''email'')) authors
          then authorsLoop rest authors
          else authorsLoop rest (authors @ [author]))"

text \<open>Line 166: the \<^verbatim>\<open>author\<close> of every commit of the history.\<close>

definition commitAuthors :: "jsval \<Rightarrow> jsval list option" where
  "commitAuthors githubObject = do {
     defaultBranchRef \<leftarrow> js_get githubObject ''defaultBranchRef'';
     target \<leftarrow> js_get defaultBranchRef ''target'';
     history \<leftarrow> js_get target ''history'';
     edges \<leftarrow> js_get history ''edges'';
     case edges of
       JArr es \<Rightarrow> mapM (\<lambda>edge. do { node \<leftarrow> js_get edge ''node''; js_get node ''author'' }) es
     | _ \<Rightarrow> None
   }"

definition buildAuthors :: "jsval \<Rightarrow> jsval option" where
  "buildAuthors githubObject = do {
     contributors \<leftarrow> commitAuthors githubObject;
     authors \<leftarrow> authorsLoop contributors [];
     Some (JArr (map JObj authors))
   }"

text \<open>\<^verbatim>\<open>buildLicense\<close> (lines 190-207).\<close>

definition buildLicense :: "jsval \<Rightarrow> jsval option" where
  "buildLicense githubObject = do {
     licenseInfo \<leftarrow> js_get githubObject ''licenseInfo'';
     if truthy licenseInfo then do {
       name \<leftarrow> js_get licenseInfo ''name'';
       url \<leftarrow> js_get licenseInfo ''url'';
       Some (JArr [JObj [(''name'', name), (''url'', url)]])
     } else Some (JArr [])
   }"

text \<open>
  \<^verbatim>\<open>githubMetadata\<close> (lines 209-267). The result is the object literal of the
  source, property by property; \<open>None\<close> when one of the reads throws.
\<close>

definition githubMetadata :: "jsval \<Rightarrow> jsobj option" where
  "githubMetadata ghObject = do {
     name \<leftarrow> js_get ghObject ''name'';
     description \<leftarrow> js_get ghObject ''description'';
     mirrorUrl \<leftarrow> js_get ghObject ''mirrorUrl'';
     homepageUrl \<leftarrow> js_get ghObject ''homepageUrl'';
     isDisabled \<leftarrow> js_get ghObject ''isDisabled'';
     isEmpty \<leftarrow> js_get ghObject ''isEmpty'';
     isLocked \<leftarrow> js_get ghObject ''isLocked'';
     isPrivate \<leftarrow> js_get ghObject ''isPrivate'';
     isTemplate \<leftarrow> js_get ghObject ''isTemplate'';
     releases \<leftarrow> js_get ghObject ''releases'';
     nodes \<leftarrow> js_get releases ''nodes'';
     version \<leftarrow> js_map (\<lambda>node. js_get node ''tagName'') nodes;
     license \<leftarrow> buildLicense ghObject;
     url \<leftarrow> js_get ghObject ''url'';
     topics \<leftarrow> buildTopics ghObject;
     authors \<leftarrow> buildAuthors ghObject;
     Some
      [(''name'', name),
       (''label'', JArr [name]),
       (''description'', JArr (removeNull [description])),
       (''links'', JArr (removeNull [mirrorUrl])),
       (''webpage'', JArr (removeNull [homepageUrl])),
       (''isDisabled'', isDisabled),
       (''isEmpty'', isEmpty),
       (''isLocked'', isLocked),
       (''isPrivate'', isPrivate),
       (''isTemplate'', isTemplate),
       (''version'', version),
       (''license'', license),
       (''repository'', JArr (removeNull [url])),
       (''topics'', topics),
       (''operations'', JArr []),
       (''authors'', authors),
       (''bioschemas'', JBool False),
       (''contribPolicy'', JArr []),
       (''dependencies'', JArr []),
       (''documentation'', JArr []),
       (''download'', JArr []),
       (''edam_operations'', JArr []),
       (''edam_topics'', JArr []),
       (''https'', JBool True),
       (''input'', JArr []),
       (''inst_instr'', JBool False),
       (''operational'', JBool False),
       (''os'', JArr []),
       (''output'', JArr []),
       (''publication'', JArr []),
       (''semantics'', JObj [(''inputs'', JArr []), (''outputs'', JArr []),
                             (''topics'', JArr []), (''operations'', JArr [])]),
       (''source'', JArr [JStr ''github'']),
       (''src'', JArr []),
       (''ssl'', JBool True),
       (''tags'', JArr []),
       (''test'', JArr []),
       (''type'', JStr [])]
   }"

subsection \<open>Vocabulary of the properties\<close>




text \<open>
  The replies to the GraphQL query of \<^verbatim>\<open>queryRepositoryObject\<close> on which every
  nested read of \<^verbatim>\<open>githubMetadata\<close> finds an object: the release nodes are
  objects, the topic nodes are objects with a \<^verbatim>\<open>topic\<close> object,
  \<^verbatim>\<open>licenseInfo\<close> is \<^verbatim>\<open>null\<close> or an object, and the default branch has
  a history whose edges hold commit nodes with an \<^verbatim>\<open>author\<close> object. This is
  narrower than the type of the reply, which has \<^verbatim>\<open>defaultBranchRef: null\<close> for
  an empty repository and allows a commit without author.
  \<open>path\<close> follows property names through nested objects.
\<close>

fun path :: "jsval \<Rightarrow> string list \<Rightarrow> jsval" where
  "path v [] = v"
| "path v (k # ks) = (case v of JObj al \<Rightarrow> path (lookup al k) ks | _ \<Rightarrow> JUndefined)"

definition isObject :: "jsval \<Rightarrow> bool" where
  "isObject v = (case v of JObj al \<Rightarrow> True | _ \<Rightarrow> False)"

definition objectsAt :: "jsval \<Rightarrow> string list \<Rightarrow> string list \<Rightarrow> bool" where
  "objectsAt v ks inner =
     (case path v ks of
        JArr xs \<Rightarrow> list_all (\<lambda>x. isObject (path x inner)) xs
      | _ \<Rightarrow> False)"

definition isReadableReply :: "jsval \<Rightarrow> bool" where
  "isReadableReply ghObject \<longleftrightarrow>
     isObject ghObject
     \<and> objectsAt ghObject [''releases'', ''nodes''] []
     \<and> objectsAt ghObject [''repositoryTopics'', ''nodes''] [''topic'']
     \<and> (path ghObject [''licenseInfo''] = JNull \<or> isObject (path ghObject [''licenseInfo'']))
     \<and> objectsAt ghObject [''defaultBranchRef'', ''target'', ''history'', ''edges'']
          [''node'', ''author'']"

text \<open>
  An example of such a reply, for a repository without releases, topics and licence; the first argument holds
  the properties that vary between the examples below, the second the commit authors.
\<close>

definition repositoryObject :: "jsobj \<Rightarrow> jsval list \<Rightarrow> jsval" where
  "repositoryObject props contributors =
     JObj (props @
       [(''name'', JStr ''tool''),
        (''isDisabled'', JBool False), (''isEmpty'', JBool False), (''isLocked'', JBool False),
        (''isPrivate'', JBool False), (''isTemplate'', JBool False),
        (''licenseInfo'', JNull),
        (''mirrorUrl'', JNull),
        (''releases'', JObj [(''nodes'', JArr [])]),
        (''url'', JStr ''https://github.com/inab/tool''),
        (''defaultBranchRef'',
           JObj [(''target'',
             JObj [(''history'',
               JObj [(''edges'',
                 JArr (map (\<lambda>c. JObj [(''node'', JObj [(''author'', c)])]) contributors))])])]),
        (''repositoryTopics'', JObj [(''nodes'', JArr [])])])"

text \<open>
  The reply for an empty repository, with every property the query asks for: there is
  no default branch, and \<^verbatim>\<open>defaultBranchRef\<close> is \<^verbatim>\<open>null\<close>.
\<close>

definition emptyRepository :: jsval where
  "emptyRepository =
     JObj [(''description'', JNull),
           (''descriptionHTML'', JStr ''<div></div>''),
           (''homepageUrl'', JStr ''http://x''),
           (''isDisabled'', JBool False), (''isEmpty'', JBool True), (''isFork'', JBool False),
           (''isInOrganization'', JBool True), (''isLocked'', JBool False),
           (''isMirror'', JBool False), (''isPrivate'', JBool False),
           (''isTemplate'', JBool False),
           (''latestRelease'', JNull),
           (''licenseInfo'', JNull),
           (''name'', JStr ''tool''),
           (''mirrorUrl'', JNull),
           (''packages'', JObj [(''nodes'', JArr [])]),
           (''releases'', JObj [(''nodes'', JArr [])]),
           (''url'', JStr ''https://github.com/inab/tool''),
           (''defaultBranchRef'', JNull),
           (''repositoryTopics'', JObj [(''nodes'', JArr [])])]"

text \<open>\<^verbatim>\<open>metadata.k\<close> of a record that was returned.\<close>

definition fieldOf :: "string \<Rightarrow> jsobj \<Rightarrow> jsval" where
  "fieldOf k metadata = lookup metadata k"

section \<open>List-ID preparer\<close>

text \<open>
  \<^verbatim>\<open>PrepareListsIds\<close> (metadata.js, lines 269-318). The constant list
  \<^verbatim>\<open>fields\<close> of the source:
\<close>

definition fields :: "string list" where
  "fields =
    [''edam_topics'', ''edam_operations'', ''documentation'', ''description'', ''webpage'',
     ''license'', ''src'', ''links'', ''topics'', ''operations'', ''input'', ''output'',
     ''repository'', ''dependencies'', ''os'', ''authors'', ''publication'']"

text \<open>
  The inner loop: \<^verbatim>\<open>new_field.push({term: item, id: n}); n++\<close> for each item,
  the counter starting at the given value.
\<close>

fun addIds :: "int \<Rightarrow> jsval list \<Rightarrow> jsval list" where
  "addIds n [] = []"
| "addIds n (item # items) = JObj [(''term'', item), (''id'', JNum n)] # addIds (n + 1) items"

text \<open>
  The outer loop over the field names, on the properties of the metadata object (the
  record is an object: the list of its properties). The
  assignment \<^verbatim>\<open>metadata[field] = new_field\<close> keeps the position of a
  property that exists. When \<^verbatim>\<open>metadata[field]\<close> is not iterable the
  \<^verbatim>\<open>for ... of\<close> throws and nothing is returned.
\<close>

fun prepareLoop :: "string list \<Rightarrow> jsobj \<Rightarrow> jsobj option" where
  "prepareLoop [] al = Some al"
| "prepareLoop (field # rest) al =
     (case iterate (lookup al field) of
        None \<Rightarrow> None
      | Some items \<Rightarrow> prepareLoop rest (AList.update field (JArr (addIds 0 items)) al))"

definition PrepareListsIds :: "jsobj \<Rightarrow> jsobj option" where
  "PrepareListsIds metadata = prepareLoop fields metadata"

text \<open>The sequence of \<^verbatim>\<open>{term, id}\<close> pairs the specification describes.\<close>

definition termIdPairs :: "jsval list \<Rightarrow> jsval list" where
  "termIdPairs xs = map (\<lambda>i. JObj [(''term'', xs ! i), (''id'', JNum (int i))]) [0..<length xs]"

section \<open>Document classifier\<close>

text \<open>
  The constants \<^verbatim>\<open>docDirs\<close> and \<^verbatim>\<open>docTypes\<close> of
  \<^verbatim>\<open>fetchDocumentationFiles\<close> (lines 331-345), the second in the order of
  \<^verbatim>\<open>Object.entries\<close>.
\<close>

definition docDirs :: "string list" where
  "docDirs = [''docs'', ''documentation'', ''example'']"

definition docTypes :: "(string \<times> string list) list" where
  "docTypes =
    [(''readme'', [''README.md'', ''README.txt'']),
     (''contributing'', [''CONTRIBUTING.md'', ''CONTRIBUTING.txt'']),
     (''license'', [''LICENSE.md'', ''LICENSE.txt'', ''LICENSE'']),
     (''code_of_conduct'', [''CODE_OF_CONDUCT.md'', ''CODE_OF_CONDUCT.txt'']),
     (''changelog'', [''CHANGELOG.md'', ''CHANGELOG.txt'']),
     (''installation'', [''INSTALL.md'', ''INSTALL.txt'', ''INSTALL'']),
     (''usage'', [''USAGE.md'', ''USAGE.txt'', ''USAGE'']),
     (''api'', [''API.md'', ''API.txt'', ''API'']),
     (''faq'', [''FAQ.md'', ''FAQ.txt'', ''FAQ'']),
     (''tutorial'', [''TUTORIAL.md'', ''TUTORIAL.txt'', ''TUTORIAL'']),
     (''requirements'', [''REQUIREMENTS.md'', ''REQUIREMENTS.txt'', ''REQUIREMENTS'']),
     (''citation'', [''CITATION.md'', ''CITATION.txt'', ''CITATION'', ''CITATION.cff''])]"

text \<open>
  \<^verbatim>\<open>processFiles\<close> (lines 391-410). The callback of \<^verbatim>\<open>filter\<close>:
  \<^verbatim>\<open>file.type === 'blob' && (file.name.endsWith('.md') || file.name.endsWith('.txt'))\<close>;
  \<^verbatim>\<open>endsWith\<close> is a method of strings only.
\<close>

definition isDocFile :: "jsval \<Rightarrow> bool option" where
  "isDocFile file = do {
     ty \<leftarrow> js_get file ''type'';
     if strictEq ty (JStr ''blob'') then do {
       name \<leftarrow> js_get file ''name'';
       case name of
         JStr s \<Rightarrow> Some (endsWith s ''.md'' \<or> endsWith s ''.txt'')
       | _ \<Rightarrow> None
     } else Some False
   }"

fun filterM :: "('a \<Rightarrow> bool option) \<Rightarrow> 'a list \<Rightarrow> 'a list option" where
  "filterM p [] = Some []"
| "filterM p (x # xs) =
     (case p x of
        None \<Rightarrow> None
      | Some b \<Rightarrow>
          (case filterM p xs of
             None \<Rightarrow> None
           | Some ys \<Rightarrow> Some (if b then x # ys else ys)))"

text \<open>The loop over \<^verbatim>\<open>Object.entries(docTypes)\<close>: the first type that lists the name.\<close>

fun findType :: "(string \<times> string list) list \<Rightarrow> string \<Rightarrow> string option" where
  "findType [] fileName = None"
| "findType ((ty, filenames) # rest) fileName =
     (if toUpperCase fileName \<in> set (map toUpperCase filenames) then Some ty
      else findType rest fileName)"

definition blobUrl :: "string \<Rightarrow> string \<Rightarrow> string \<Rightarrow> string \<Rightarrow> string" where
  "blobUrl owner repo dir fileName =
     ''https://github.com/'' @ owner @ ''/'' @ repo @ ''/blob/main/''
       @ (if dir \<noteq> [] then dir @ ''/'' else []) @ fileName"

text \<open>The callback of \<^verbatim>\<open>map\<close>.\<close>

definition classifyFile ::
    "string \<Rightarrow> string \<Rightarrow> (string \<times> string list) list \<Rightarrow> string \<Rightarrow> jsval \<Rightarrow> jsval option" where
  "classifyFile owner repo types dir file = do {
     name \<leftarrow> js_get file ''name'';
     case name of
       JStr fileName \<Rightarrow>
         Some (JObj
           [(''type'', JStr (case findType types fileName of
                               Some ty \<Rightarrow> ty
                             | None \<Rightarrow> if dir \<noteq> [] then dir else ''root'')),
            (''url'', JStr (blobUrl owner repo dir fileName))])
     | _ \<Rightarrow> None
   }"

definition processFiles ::
    "jsval list \<Rightarrow> string \<Rightarrow> string \<Rightarrow> (string \<times> string list) list \<Rightarrow> string \<Rightarrow> jsval list option" where
  "processFiles files owner repo types dir = do {
     kept \<leftarrow> filterM isDocFile files;
     mapM (classifyFile owner repo types dir) kept
   }"

text \<open>
  \<^verbatim>\<open>fetchDocumentationFiles\<close> (lines 330-360). The directory listing fetched
  over the network (\<^verbatim>\<open>fetchDirectoryContentsGraphQL\<close>, the entries of the tree
  or the empty array) is the parameter \<open>contents\<close>, from the path to the entries.
\<close>

fun dirsLoop ::
    "(string \<Rightarrow> jsval list) \<Rightarrow> string \<Rightarrow> string \<Rightarrow> string list \<Rightarrow> jsval list \<Rightarrow> jsval list option" where
  "dirsLoop contents owner repo [] documentationFiles = Some documentationFiles"
| "dirsLoop contents owner repo (dir # dirs) documentationFiles =
     (case processFiles (contents dir) owner repo docTypes dir of
        None \<Rightarrow> None
      | Some found \<Rightarrow> dirsLoop contents owner repo dirs (documentationFiles @ found))"

definition fetchDocumentationFiles ::
    "(string \<Rightarrow> jsval list) \<Rightarrow> string \<Rightarrow> string \<Rightarrow> jsval list option" where
  "fetchDocumentationFiles contents owner repo = do {
     rootFound \<leftarrow> processFiles (contents []) owner repo docTypes [];
     dirsLoop contents owner repo docDirs ([] @ rootFound)
   }"

section \<open>CITATION.cff mapper\<close>

text \<open>
  \<^verbatim>\<open>parseCitationCFF\<close> (lines 483-535). \<^verbatim>\<open>yaml.load\<close> of the
  library js-yaml is the parameter \<open>yamlLoad\<close>: the parsed document, or \<open>None\<close> when
  it throws. The metadata record is an object, mutated in place and returned; a statement
  that throws leaves the mutations made before it, and the \<^verbatim>\<open>catch\<close> returns
  the record as it is then.

  \<^verbatim>\<open>metadata.field.push(v)\<close>: a \<^verbatim>\<open>TypeError\<close> unless the property
  is an array.
\<close>

definition pushTo :: "string \<Rightarrow> jsval \<Rightarrow> jsobj \<Rightarrow> jsobj option" where
  "pushTo field v metadata =
     (case lookup metadata field of
        JArr xs \<Rightarrow> Some (AList.update field (JArr (xs @ [v])) metadata)
      | _ \<Rightarrow> None)"

text \<open>Lines 493-498.\<close>

definition cffLicense :: "jsval \<Rightarrow> jsobj \<Rightarrow> jsobj option" where
  "cffLicense citationData metadata = do {
     license \<leftarrow> js_get citationData ''license'';
     if truthy license
     then pushTo ''license'' (JObj [(''name'', license), (''url'', JStr [])]) metadata
     else Some metadata
   }"

text \<open>Lines 500-502.\<close>

definition cffTitle :: "jsval \<Rightarrow> jsobj \<Rightarrow> jsobj option" where
  "cffTitle citationData metadata = do {
     title \<leftarrow> js_get citationData ''title'';
     if truthy title then pushTo ''label'' title metadata else Some metadata
   }"

text \<open>
  Lines 504-511. The callback of \<^verbatim>\<open>map\<close> builds the name with a template
  literal, which prints each of the two properties with \<^verbatim>\<open>String\<close>.
\<close>

definition citationAuthor :: "jsval \<Rightarrow> jsval option" where
  "citationAuthor author = do {
     given \<leftarrow> js_get author ''given-names'';
     family \<leftarrow> js_get author ''family-names'';
     Some (JObj [(''name'', JStr (js_toString given @ '' '' @ js_toString family)),
                 (''email'', JStr []),
                 (''maintainer'', JBool False),
                 (''type'', JStr ''person'')])
   }"

definition cffAuthors :: "jsval \<Rightarrow> jsobj \<Rightarrow> jsobj option" where
  "cffAuthors citationData metadata = do {
     authors \<leftarrow> js_get citationData ''authors'';
     len \<leftarrow> js_get authors ''length'';
     if js_gt0 len then do {
       mapped \<leftarrow> js_map citationAuthor authors;
       Some (AList.update ''authors'' mapped metadata)
     } else Some metadata
   }"

text \<open>Lines 513-515.\<close>

definition cffVersion :: "jsval \<Rightarrow> jsobj \<Rightarrow> jsobj option" where
  "cffVersion citationData metadata = do {
     version \<leftarrow> js_get citationData ''version'';
     if truthy version then pushTo ''version'' version metadata else Some metadata
   }"

text \<open>Lines 517-525.\<close>

definition cffPreferred :: "jsval \<Rightarrow> jsobj \<Rightarrow> jsobj option" where
  "cffPreferred citationData metadata = do {
     preferred \<leftarrow> js_get citationData ''preferred-citation'';
     if truthy preferred then do {
       title \<leftarrow> js_get preferred ''title'';
       year \<leftarrow> js_get preferred ''year'';
       doi \<leftarrow> js_get preferred ''doi'';
       url \<leftarrow> js_get preferred ''url'';
       pushTo ''publication''
         (JObj [(''title'', js_or title (JStr [])),
                (''year'', js_or year (JStr [])),
                (''doi'', js_or doi (JStr [])),
                (''url'', js_or url (JStr []))]) metadata
     } else Some metadata
   }"

text \<open>
  The body of the \<^verbatim>\<open>try\<close>, statement by statement: the record after the last
  statement that ran, and whether all of them did.
\<close>

fun runSteps :: "(jsobj \<Rightarrow> jsobj option) list \<Rightarrow> jsobj \<Rightarrow> jsobj \<times> bool" where
  "runSteps [] metadata = (metadata, True)"
| "runSteps (step # steps) metadata =
     (case step metadata of
        None \<Rightarrow> (metadata, False)
      | Some metadata' \<Rightarrow> runSteps steps metadata')"

definition parseCitationCFF :: "(string \<Rightarrow> jsval option) \<Rightarrow> string \<Rightarrow> jsobj \<Rightarrow> jsobj" where
  "parseCitationCFF yamlLoad citationContent metadata =
     (case yamlLoad citationContent of
        None \<Rightarrow> metadata
      | Some citationData \<Rightarrow>
          fst (runSteps
                 [cffLicense citationData, cffTitle citationData, cffAuthors citationData,
                  cffVersion citationData, cffPreferred citationData]
                 metadata))"

subsection \<open>Vocabulary of the properties\<close>


section \<open>BibTeX extractor\<close>

text \<open>
  \<^verbatim>\<open>extractBibTeXEntries\<close> (lines 558-601). The regular expression
  \<^verbatim>\<open>/@(article|INPROCEEDINGS)\s*{[^,]+,/gi\<close> tried at the beginning of a string:
  the at sign, one of the two words in any case, white space, an opening brace, one or
  more characters other than a comma, a comma. Both repetitions are greedy and what
  follows each cannot be matched by the repeated class, so there is one way to match.
  \<open>stripKeyword\<close> is a word of the alternative; the result of \<open>matchStart\<close> is
  \<^verbatim>\<open>match[0]\<close> with the rest of the string after it.
\<close>

definition stripKeyword :: "string \<Rightarrow> string \<Rightarrow> (string \<times> string) option" where
  "stripKeyword kw s =
     (if length kw \<le> length s \<and> map upperChar (take (length kw) s) = map upperChar kw
      then Some (take (length kw) s, drop (length kw) s)
      else None)"

definition matchStart :: "string \<Rightarrow> (string \<times> string) option" where
  "matchStart s =
     (case s of
        [] \<Rightarrow> None
      | c # s1 \<Rightarrow>
          if c \<noteq> CHR ''@'' then None
          else
            (case (case stripKeyword ''article'' s1 of
                     Some r \<Rightarrow> Some r
                   | None \<Rightarrow> stripKeyword ''INPROCEEDINGS'' s1) of
               None \<Rightarrow> None
             | Some (kw, s2) \<Rightarrow>
                 (case dropWhile isSpace s2 of
                    [] \<Rightarrow> None
                  | b # s3 \<Rightarrow>
                      if b \<noteq> CHR ''{'' then None
                      else
                        (case dropWhile (\<lambda>x. x \<noteq> CHR '','') s3 of
                           [] \<Rightarrow> None
                         | comma # s4 \<Rightarrow>
                             if takeWhile (\<lambda>x. x \<noteq> CHR '','') s3 = [] then None
                             else Some (c # kw @ takeWhile isSpace s2 @ b
                                          # takeWhile (\<lambda>x. x \<noteq> CHR '','') s3 @ [comma], s4)))))"

text \<open>
  The inner \<^verbatim>\<open>for\<close> loop (lines 576-591): the entry so far, the brace counter,
  and the characters not read yet. It returns the entry that is pushed, or \<open>None\<close>
  when the input ends first.
\<close>

fun scanBraces :: "int \<Rightarrow> string \<Rightarrow> string \<Rightarrow> string option" where
  "scanBraces braceCount entry [] = None"
| "scanBraces braceCount entry (ch # rest) =
     (let entry' = entry @ [ch];
          braceCount' = (if ch = CHR ''{'' then braceCount + 1
                         else if ch = CHR ''}'' then braceCount - 1
                         else braceCount)
      in if braceCount' = 0 then Some entry' else scanBraces braceCount' entry' rest)"

lemma stripKeyword_parts:
  "stripKeyword kw s = Some (m, r) \<Longrightarrow> s = m @ r \<and> length m = length kw"
  by (auto simp: stripKeyword_def split: if_splits)

lemma matchStart_parts:
  assumes "matchStart s = Some (m, r)"
  shows "s = m @ r \<and> m \<noteq> []"
proof -
  from assms obtain c s1 where s: "s = c # s1" and c: "c = CHR ''@''"
    by (auto simp: matchStart_def split: list.splits if_splits)
  from assms s c obtain kw s2 where
    kw: "(case stripKeyword ''article'' s1 of Some r \<Rightarrow> Some r
          | None \<Rightarrow> stripKeyword ''INPROCEEDINGS'' s1) = Some (kw, s2)"
    by (auto simp: matchStart_def split: option.splits)
  then have s1: "s1 = kw @ s2"
    by (auto split: option.splits dest: stripKeyword_parts)
  from assms s c kw obtain b s3 where sp: "dropWhile isSpace s2 = b # s3"
    by (auto simp: matchStart_def split: list.splits)
  from assms s c kw sp obtain comma s4 where
    key: "dropWhile (\<lambda>x. x \<noteq> CHR '','') s3 = comma # s4"
    by (auto simp: matchStart_def split: list.splits if_splits)
  from assms s c kw sp key have
    m: "m = c # kw @ takeWhile isSpace s2 @ b # takeWhile (\<lambda>x. x \<noteq> CHR '','') s3 @ [comma]"
    and r: "r = s4"
    by (auto simp: matchStart_def split: if_splits)
  have "s2 = takeWhile isSpace s2 @ b # s3"
    using sp takeWhile_dropWhile_id [of isSpace s2] by simp
  moreover have "s3 = takeWhile (\<lambda>x. x \<noteq> CHR '','') s3 @ comma # s4"
    using key takeWhile_dropWhile_id [of "\<lambda>x. x \<noteq> CHR '',''" s3] by simp
  ultimately have "s = m @ r"
    using s s1 m r by simp
  with m show ?thesis by simp
qed

text \<open>
  The \<^verbatim>\<open>while\<close> loop over \<^verbatim>\<open>startRegex.exec(content)\<close> (lines 570-592),
  on the part of the content from \<^verbatim>\<open>lastIndex\<close> on. A search finds the first
  position where the expression matches; the next search starts right after
  \<^verbatim>\<open>match[0]\<close>, whether or not the braces closed.
\<close>

function execLoop :: "string \<Rightarrow> string list" where
  "execLoop [] = []"
| "execLoop (c # cs) =
     (case matchStart (c # cs) of
        None \<Rightarrow> execLoop cs
      | Some (m, rest) \<Rightarrow>
          (case scanBraces 1 m rest of
             None \<Rightarrow> execLoop rest
           | Some entry \<Rightarrow> entry # execLoop rest))"
  by pat_completeness auto
termination
proof (relation "measure length")
  show "wf (measure length)" by simp
next
  fix c :: char and cs :: string
  assume "matchStart (c # cs) = None"
  show "(cs, c # cs) \<in> measure length" by simp
next
  fix c :: char and cs :: string and x2 :: "string \<times> string" and m rest :: string
  assume "matchStart (c # cs) = Some x2" and "(m, rest) = x2"
  then have "c # cs = m @ rest \<and> m \<noteq> []"
    using matchStart_parts [of "c # cs" m rest] by simp
  then have "length rest < length (c # cs)"
    by (metis length_append length_greater_0_conv less_add_same_cancel2)
  then show "(rest, c # cs) \<in> measure length" by simp
next
  fix c :: char and cs :: string and x2 :: "string \<times> string" and m rest entry :: string
  assume "matchStart (c # cs) = Some x2" and "(m, rest) = x2"
  then have "c # cs = m @ rest \<and> m \<noteq> []"
    using matchStart_parts [of "c # cs" m rest] by simp
  then have "length rest < length (c # cs)"
    by (metis length_append length_greater_0_conv less_add_same_cancel2)
  then show "(rest, c # cs) \<in> measure length" by simp
qed

text \<open>
  The whole function. \<^verbatim>\<open>String(content)\<close> coerces the argument, the back ticks
  are removed, and the Unicode normalisation \<^verbatim>\<open>normalize('NFKD')\<close> of the
  platform is the parameter \<open>nfkd\<close>.
\<close>

definition extractBibTeXEntries :: "(string \<Rightarrow> string) \<Rightarrow> jsval \<Rightarrow> string list" where
  "extractBibTeXEntries nfkd content =
     execLoop (nfkd (filter (\<lambda>c. c \<noteq> CHR 0x60) (js_toString content)))"

subsection \<open>Vocabulary of the properties\<close>

text \<open>
  Braces are balanced from a depth when every closing brace finds an open one and the
  depth is back at 0 at the end; a string is brace-balanced when it is so from depth 0.
  \<open>neverCloses\<close>: read from a depth (0 stands for the one brace a header leaves
  open), the braces never come back below it before the input ends.
\<close>

fun balancedFrom :: "nat \<Rightarrow> string \<Rightarrow> bool" where
  "balancedFrom depth [] = (depth = 0)"
| "balancedFrom depth (ch # rest) =
     (if ch = CHR ''{'' then balancedFrom (Suc depth) rest
      else if ch = CHR ''}'' then 0 < depth \<and> balancedFrom (depth - 1) rest
      else balancedFrom depth rest)"

definition braceBalanced :: "string \<Rightarrow> bool" where
  "braceBalanced s = balancedFrom 0 s"

fun neverCloses :: "nat \<Rightarrow> string \<Rightarrow> bool" where
  "neverCloses depth [] = True"
| "neverCloses depth (ch # rest) =
     (if ch = CHR ''{'' then neverCloses (Suc depth) rest
      else if ch = CHR ''}'' then 0 < depth \<and> neverCloses (depth - 1) rest
      else neverCloses depth rest)"

text \<open>
  The parts of an entry as BibTeX writes it: the at sign, the keyword \<^verbatim>\<open>article\<close>
  or \<^verbatim>\<open>inproceedings\<close> in any case, white space, the opening brace, the key and
  the comma after it. The key of a well-formed header is not empty and holds neither a
  comma nor a brace.
\<close>

definition isKeyword :: "string \<Rightarrow> bool" where
  "isKeyword kw \<longleftrightarrow> map upperChar kw = ''ARTICLE'' \<or> map upperChar kw = ''INPROCEEDINGS''"

definition headerText :: "string \<Rightarrow> string \<Rightarrow> string \<Rightarrow> string" where
  "headerText kw ws key = CHR ''@'' # kw @ ws @ CHR ''{'' # key @ '',''"

definition isHeader :: "string \<Rightarrow> string \<Rightarrow> string \<Rightarrow> bool" where
  "isHeader kw ws key \<longleftrightarrow>
     isKeyword kw \<and> list_all isSpace ws \<and> key \<noteq> []
     \<and> CHR '','' \<notin> set key \<and> CHR ''{'' \<notin> set key \<and> CHR ''}'' \<notin> set key"

text \<open>
  An entry opening at the beginning of a string: the at sign, one of the two keywords
  in any case, white space and an opening brace. A text is without opening when none
  begins at any of its positions.
\<close>

fun openingRest :: "string \<Rightarrow> bool" where
  "openingRest [] = False"
| "openingRest (c # cs) = (c = CHR ''{'' \<or> (isSpace c \<and> openingRest cs))"

definition startsOpening :: "string \<Rightarrow> bool" where
  "startsOpening s =
     (case s of
        [] \<Rightarrow> False
      | c # s1 \<Rightarrow>
          c = CHR ''@''
          \<and> ((map upperChar (take 7 s1) = ''ARTICLE'' \<and> openingRest (drop 7 s1))
             \<or> (map upperChar (take 13 s1) = ''INPROCEEDINGS'' \<and> openingRest (drop 13 s1))))"

fun noOpening :: "string \<Rightarrow> bool" where
  "noOpening [] = True"
| "noOpening (c # cs) = (\<not> startsOpening (c # cs) \<and> noOpening cs)"

text \<open>
  A document: items, each with the text that follows it. An item is a complete entry
  (header, body, closing brace) or an unterminated one (a header only: what follows it
  is the text after the item). The document is well formed when every header is, the
  body of every complete entry is brace-balanced and without opening, the text after
  every item is without opening, and after the header of an unterminated entry the
  braces never close before the end of the document.
\<close>

datatype item = Entry string string string string | Unterminated string string string

fun itemText :: "item \<Rightarrow> string" where
  "itemText (Entry kw ws key body) = headerText kw ws key @ body @ ''}''"
| "itemText (Unterminated kw ws key) = headerText kw ws key"

fun documentText :: "(item \<times> string) list \<Rightarrow> string" where
  "documentText [] = []"
| "documentText ((i, j) # rest) = itemText i @ j @ documentText rest"

fun completeEntries :: "(item \<times> string) list \<Rightarrow> string list" where
  "completeEntries [] = []"
| "completeEntries ((Entry kw ws key body, j) # rest) = itemText (Entry kw ws key body) # completeEntries rest"
| "completeEntries ((Unterminated kw ws key, j) # rest) = completeEntries rest"

fun wellFormedDocument :: "(item \<times> string) list \<Rightarrow> bool" where
  "wellFormedDocument [] = True"
| "wellFormedDocument ((Entry kw ws key body, j) # rest) =
     (isHeader kw ws key \<and> braceBalanced body \<and> noOpening body \<and> noOpening j
      \<and> wellFormedDocument rest)"
| "wellFormedDocument ((Unterminated kw ws key, j) # rest) =
     (isHeader kw ws key \<and> noOpening j \<and> neverCloses 0 (j @ documentText rest)
      \<and> wellFormedDocument rest)"

text \<open>Text of ASCII characters only, which the normalisation leaves as it is.\<close>

definition asciiOnly :: "string \<Rightarrow> bool" where
  "asciiOnly s = list_all (\<lambda>c. (of_char c :: nat) < 128) s"

section \<open>BibTeX entry parser and publication builder\<close>

text \<open>
  \<^verbatim>\<open>cleanBracketsInObject\<close> (lines 603-614): every own property that is a string
  starting with an opening and ending with a closing brace becomes
  \<^verbatim>\<open>obj[key].slice(1, -1).trim()\<close>.
\<close>

definition cleanValue :: "jsval \<Rightarrow> jsval" where
  "cleanValue v =
     (case v of
        JStr s \<Rightarrow>
          if startsWith s ''{'' \<and> endsWith s ''}'' then JStr (trim (butlast (tl s))) else JStr s
      | _ \<Rightarrow> v)"

definition cleanBracketsInObject :: "jsobj \<Rightarrow> jsobj" where
  "cleanBracketsInObject obj = map (\<lambda>(key, v). (key, cleanValue v)) obj"

text \<open>
  The body of the \<^verbatim>\<open>try\<close> of \<^verbatim>\<open>extractJournalPublication\<close> (lines
  622-632) for one entry. \<^verbatim>\<open>parse\<close> of the library bibtex-parser is the parameter
  \<open>parse\<close>: the object it returns, or \<open>None\<close> when it throws.
  \<^verbatim>\<open>Object.keys(parsed)[0]\<close> is the first property, \<^verbatim>\<open>undefined\<close>
  when there is none.
\<close>

definition firstEntry :: "jsobj \<Rightarrow> jsval" where
  "firstEntry parsed = (case parsed of [] \<Rightarrow> JUndefined | (key, v) # rest \<Rightarrow> lookup parsed key)"

definition newPublication :: "(string \<Rightarrow> jsobj option) \<Rightarrow> string \<Rightarrow> jsobj option" where
  "newPublication parse entry = do {
     parsed \<leftarrow> parse entry;
     title \<leftarrow> js_get (firstEntry parsed) ''TITLE'';
     year \<leftarrow> js_get (firstEntry parsed) ''YEAR'';
     doi \<leftarrow> js_get (firstEntry parsed) ''DOI'';
     url \<leftarrow> js_get (firstEntry parsed) ''URL'';
     Some (cleanBracketsInObject
            [(''title'', js_or title (JStr [])),
             (''year'', js_or year (JStr [])),
             (''doi'', js_or doi (JStr [])),
             (''url'', js_or url (JStr []))])
   }"

text \<open>The loop over the entries (lines 620-636): an entry that throws is skipped.\<close>

fun publicationsLoop :: "(string \<Rightarrow> jsobj option) \<Rightarrow> string list \<Rightarrow> jsobj list \<Rightarrow> jsobj list" where
  "publicationsLoop parse [] publications = publications"
| "publicationsLoop parse (entry # entries) publications =
     (case newPublication parse entry of
        None \<Rightarrow> publicationsLoop parse entries publications
      | Some new_pub \<Rightarrow> publicationsLoop parse entries (publications @ [new_pub]))"

definition extractJournalPublication ::
    "(string \<Rightarrow> jsobj option) \<Rightarrow> (string \<Rightarrow> string) \<Rightarrow> jsval \<Rightarrow> jsobj list" where
  "extractJournalPublication parse nfkd content =
     publicationsLoop parse (extractBibTeXEntries nfkd content) []"

section \<open>Branch name generator\<close>

text \<open>
  \<^verbatim>\<open>generateBranchName\<close> of the metadata updater's helpers. The regular
  expression \<^verbatim>\<open>/^evaluator(?:-(\d+))?$/\<close> on a whole string: no match, a match
  without the group, or a match with the digits of the group.
\<close>

definition isDigit :: "char \<Rightarrow> bool" where
  "isDigit c \<longleftrightarrow> c \<in> set ''0123456789''"

definition matchEvaluator :: "string \<Rightarrow> string option option" where
  "matchEvaluator s =
     (if s = ''evaluator'' then Some None
      else if take 10 s = ''evaluator-'' \<and> drop 10 s \<noteq> [] \<and> list_all isDigit (drop 10 s)
      then Some (Some (drop 10 s))
      else None)"

text \<open>The integer a string of decimal digits denotes.\<close>

definition digitsValue :: "string \<Rightarrow> nat" where
  "digitsValue ds = foldl (\<lambda>a c. 10 * a + (of_char c - 48)) 0 ds"

text \<open>
  A JavaScript number is an IEEE double: an integer below \<open>2^53\<close> is itself, a larger
  one is rounded to 53 significant bits, a tie going to the even neighbour. (The
  overflow to infinity, beyond 308 digits, is not modelled, nor the freedom
  \<^verbatim>\<open>parseInt\<close> has to round a numeral of more than 20 digits in another way.)
\<close>

fun bitLength :: "nat \<Rightarrow> nat" where
  "bitLength n = (if n = 0 then 0 else Suc (bitLength (n div 2)))"

declare bitLength.simps [simp del]

definition toDouble :: "nat \<Rightarrow> nat" where
  "toDouble n =
     (if n < 2 ^ 53 then n
      else
        let e = bitLength n - 53;
            q = n div 2 ^ e;
            r = n mod 2 ^ e;
            h = 2 ^ (e - 1)
        in if r < h \<or> (r = h \<and> even q) then q * 2 ^ e else (q + 1) * 2 ^ e)"

text \<open>
  The callback of \<^verbatim>\<open>map\<close>: \<^verbatim>\<open>null\<close> (here \<open>None\<close>) without a match,
  else \<^verbatim>\<open>parseInt(match[1], 10) || 0\<close>; \<^verbatim>\<open>re.exec\<close> converts its
  argument to a string.
\<close>

definition branchNumber :: "jsval \<Rightarrow> nat option" where
  "branchNumber branch =
     (case matchEvaluator (js_toString branch) of
        None \<Rightarrow> None
      | Some None \<Rightarrow> Some 0
      | Some (Some ds) \<Rightarrow> Some (toDouble (digitsValue ds)))"

text \<open>
  The function: an \<^verbatim>\<open>Error\<close> is thrown (\<open>None\<close>) unless the argument is an
  array. \<^verbatim>\<open>Math.max\<close> is taken of a list that is not empty.
\<close>

definition nextNumber :: "nat list \<Rightarrow> nat" where
  "nextNumber evaluator_branches =
     (case evaluator_branches of
        [] \<Rightarrow> 1
      | n # ns \<Rightarrow> toDouble (fold max ns n + 1))"

definition generateBranchName :: "jsval \<Rightarrow> string option" where
  "generateBranchName branches =
     (case branches of
        JArr bs \<Rightarrow> Some (''evaluator-'' @ decimal (nextNumber (List.map_filter branchNumber bs)))
      | _ \<Rightarrow> None)"

subsection \<open>Vocabulary of the properties\<close>

text \<open>
  The number of a branch name as the documentation of the function counts it: none for
  a name that is not an evaluator branch, 0 for \<^verbatim>\<open>evaluator\<close>, the integer
  \<open>n\<close> for \<^verbatim>\<open>evaluator-n\<close>.
\<close>

definition evaluatorNumber :: "string \<Rightarrow> nat option" where
  "evaluatorNumber branch =
     (case matchEvaluator branch of
        None \<Rightarrow> None
      | Some None \<Rightarrow> Some 0
      | Some (Some ds) \<Rightarrow> Some (digitsValue ds))"

section \<open>Verified properties\<close>

subsection \<open>List-ID preparer\<close>

lemma addIds_nth:
  "addIds n xs = map (\<lambda>i. JObj [(''term'', xs ! i), (''id'', JNum (n + int i))]) [0..<length xs]"
proof (induction xs arbitrary: n)
  case Nil
  show ?case by simp
next
  case (Cons x xs)
  have "map (\<lambda>i. JObj [(''term'', (x # xs) ! i), (''id'', JNum (n + int i))]) [0..<length (x # xs)]
      = JObj [(''term'', x), (''id'', JNum n)]
        # map (\<lambda>i. JObj [(''term'', xs ! i), (''id'', JNum (n + 1 + int i))]) [0..<length xs]"
    by (simp add: upt_conv_Cons map_Suc_upt [symmetric] del: upt_Suc)
  with Cons.IH [of "n + 1"] show ?case by simp
qed

lemma addIds_termIdPairs: "addIds 0 xs = termIdPairs xs"
  by (simp add: addIds_nth termIdPairs_def)

lemma prepareLoop_arrays:
  assumes "distinct fs" and "\<forall>f\<in>set fs. \<exists>xs. map_of al f = Some (JArr xs)"
  shows "\<exists>al'. prepareLoop fs al = Some al' \<and> map fst al' = map fst al
           \<and> (\<forall>k. map_of al' k =
                 (if k \<in> set fs then Some (JArr (termIdPairs (the (iterate (lookup al k)))))
                  else map_of al k))"
  using assms
proof (induction fs arbitrary: al)
  case Nil
  then show ?case by simp
next
  case (Cons f fs)
  from Cons.prems obtain xs where xs: "map_of al f = Some (JArr xs)" by auto
  let ?al1 = "AList.update f (JArr (addIds 0 xs)) al"
  have f_notin: "f \<notin> set fs" and dist: "distinct fs" using Cons.prems by auto
  have same: "map_of ?al1 g = map_of al g" if "g \<in> set fs" for g
    using that f_notin by (auto simp: update_conv')
  have "\<forall>g\<in>set fs. \<exists>ys. map_of ?al1 g = Some (JArr ys)"
    using Cons.prems same by auto
  from Cons.IH [OF dist this] obtain al' where
    run: "prepareLoop fs ?al1 = Some al'" and keys: "map fst al' = map fst ?al1"
    and vals: "\<forall>k. map_of al' k =
                 (if k \<in> set fs then Some (JArr (termIdPairs (the (iterate (lookup ?al1 k)))))
                  else map_of ?al1 k)"
    by blast
  have "f \<in> fst ` set al" using xs by (force dest: map_of_SomeD)
  then have keys1: "map fst ?al1 = map fst al" by (simp add: update_keys)
  have step: "prepareLoop (f # fs) al = Some al'"
    using xs run by (simp add: lookup_def)
  have "map_of al' k =
          (if k \<in> set (f # fs) then Some (JArr (termIdPairs (the (iterate (lookup al k)))))
           else map_of al k)" for k
  proof (cases "k \<in> set fs")
    case True
    then show ?thesis using vals same [OF True] by (simp add: lookup_def)
  next
    case False
    then show ?thesis using vals xs
      by (auto simp: update_conv' lookup_def addIds_termIdPairs)
  qed
  with step keys keys1 show ?case by auto
qed

lemma distinct_fields: "distinct fields"
  by (simp add: fields_def)

text \<open>
  Claim C6. For every metadata record in which every designated field
  (\<^verbatim>\<open>edam_topics\<close>, \<^verbatim>\<open>edam_operations\<close>, \<^verbatim>\<open>documentation\<close>,
  \<^verbatim>\<open>description\<close>, \<^verbatim>\<open>webpage\<close>, \<^verbatim>\<open>license\<close>, \<^verbatim>\<open>src\<close>,
  \<^verbatim>\<open>links\<close>, \<^verbatim>\<open>topics\<close>, \<^verbatim>\<open>operations\<close>, \<^verbatim>\<open>input\<close>,
  \<^verbatim>\<open>output\<close>, \<^verbatim>\<open>repository\<close>, \<^verbatim>\<open>dependencies\<close>, \<^verbatim>\<open>os\<close>,
  \<^verbatim>\<open>authors\<close>, \<^verbatim>\<open>publication\<close>) is present as a sequence,
  \<^verbatim>\<open>PrepareListsIds\<close> returns a record with the same property names in the same
  order, in which every one of these seventeen fields holds the sequence of
  \<^verbatim>\<open>{term: element, id: position}\<close> pairs of its former elements, in their
  order, the positions counted from 0 (so the length is kept), and every property
  outside the set is unchanged.
\<close>

theorem PrepareListsIds_assigns_ids:
  assumes "\<forall>f\<in>set [''edam_topics'', ''edam_operations'', ''documentation'', ''description'', ''webpage'',
                ''license'', ''src'', ''links'', ''topics'', ''operations'', ''input'', ''output'',
                ''repository'', ''dependencies'', ''os'', ''authors'', ''publication''].
             \<exists>xs. map_of metadata f = Some (JArr xs)"
  shows "\<exists>metadata'. PrepareListsIds metadata = Some metadata'
     \<and> map fst metadata' = map fst metadata
     \<and> (\<forall>f xs. f \<in> set [''edam_topics'', ''edam_operations'', ''documentation'', ''description'', ''webpage'',
                ''license'', ''src'', ''links'', ''topics'', ''operations'', ''input'', ''output'',
                ''repository'', ''dependencies'', ''os'', ''authors'', ''publication'']
          \<longrightarrow> map_of metadata f = Some (JArr xs) \<longrightarrow>
          (\<exists>ys. map_of metadata' f = Some (JArr ys) \<and> length ys = length xs \<and>
            (\<forall>i<length xs. ys ! i = JObj [(''term'', xs ! i), (''id'', JNum (int i))])))
     \<and> (\<forall>k. k \<notin> set [''edam_topics'', ''edam_operations'', ''documentation'', ''description'', ''webpage'',
                ''license'', ''src'', ''links'', ''topics'', ''operations'', ''input'', ''output'',
                ''repository'', ''dependencies'', ''os'', ''authors'', ''publication'']
          \<longrightarrow> map_of metadata' k = map_of metadata k)"
proof -
  have designated: "[''edam_topics'', ''edam_operations'', ''documentation'', ''description'', ''webpage'',
                ''license'', ''src'', ''links'', ''topics'', ''operations'', ''input'', ''output'',
                ''repository'', ''dependencies'', ''os'', ''authors'', ''publication''] = fields"
    by (simp add: fields_def)
  from assms have arrays: "\<forall>f\<in>set fields. \<exists>xs. map_of metadata f = Some (JArr xs)"
    unfolding designated .
  from prepareLoop_arrays [OF distinct_fields arrays] obtain al' where
    run: "prepareLoop fields metadata = Some al'" and keys: "map fst al' = map fst metadata"
    and vals: "\<forall>k. map_of al' k =
                 (if k \<in> set fields
                  then Some (JArr (termIdPairs (the (iterate (lookup metadata k)))))
                  else map_of metadata k)"
    by blast
  have "PrepareListsIds metadata = Some al'"
    using run by (simp add: PrepareListsIds_def)
  moreover have "\<exists>ys. map_of al' f = Some (JArr ys) \<and> length ys = length xs \<and>
            (\<forall>i<length xs. ys ! i = JObj [(''term'', xs ! i), (''id'', JNum (int i))])"
    if "f \<in> set fields" and "map_of metadata f = Some (JArr xs)" for f xs
    using that vals by (simp add: lookup_def termIdPairs_def)
  moreover have "map_of al' k = map_of metadata k" if "k \<notin> set fields" for k
    using that vals by simp
  ultimately show ?thesis unfolding designated using keys by blast
qed

text \<open>
  The theorem at a record that holds the seventeen designated fields, each with one to
  three elements, between the properties \<^verbatim>\<open>name\<close> and \<^verbatim>\<open>tags\<close>, which are
  not designated: every designated field is wrapped, its \<^verbatim>\<open>license\<close>
  \<^verbatim>\<open>["MIT"]\<close> becoming \<^verbatim>\<open>[{term: "MIT", id: 0}]\<close>, and the two other
  properties are kept.
\<close>

theorem PrepareListsIds_assigns_ids_witness:
  "PrepareListsIds
     [(''name'', JStr ''tool''),
      (''publication'', JArr [JStr ''p'']),
      (''authors'', JArr [JStr ''A B'', JStr ''C D'']),
      (''os'', JArr [JStr ''linux'']),
      (''dependencies'', JArr [JStr ''dep'']),
      (''repository'', JArr [JStr ''https://github.com/inab/tool'']),
      (''output'', JArr [JStr ''out'']),
      (''input'', JArr [JStr ''i'']),
      (''operations'', JArr [JStr ''o'']),
      (''topics'', JArr [JStr ''t1'', JStr ''t2'', JStr ''t3'']),
      (''links'', JArr [JStr ''l'']),
      (''src'', JArr [JStr ''s'']),
      (''license'', JArr [JStr ''MIT'']),
      (''webpage'', JArr [JStr ''http://x'']),
      (''description'', JArr [JStr ''a'', JStr ''b'']),
      (''documentation'', JArr [JStr ''d1'', JStr ''d2'']),
      (''edam_operations'', JArr [JStr ''operation_0004'']),
      (''edam_topics'', JArr [JStr ''topic_0003'']),
      (''tags'', JArr [JStr ''t''])]
   = Some
     [(''name'', JStr ''tool''),
      (''publication'', JArr [JObj [(''term'', JStr ''p''), (''id'', JNum 0)]]),
      (''authors'', JArr [JObj [(''term'', JStr ''A B''), (''id'', JNum 0)], JObj [(''term'', JStr ''C D''), (''id'', JNum 1)]]),
      (''os'', JArr [JObj [(''term'', JStr ''linux''), (''id'', JNum 0)]]),
      (''dependencies'', JArr [JObj [(''term'', JStr ''dep''), (''id'', JNum 0)]]),
      (''repository'', JArr [JObj [(''term'', JStr ''https://github.com/inab/tool''), (''id'', JNum 0)]]),
      (''output'', JArr [JObj [(''term'', JStr ''out''), (''id'', JNum 0)]]),
      (''input'', JArr [JObj [(''term'', JStr ''i''), (''id'', JNum 0)]]),
      (''operations'', JArr [JObj [(''term'', JStr ''o''), (''id'', JNum 0)]]),
      (''topics'', JArr [JObj [(''term'', JStr ''t1''), (''id'', JNum 0)], JObj [(''term'', JStr ''t2''), (''id'', JNum 1)], JObj [(''term'', JStr ''t3''), (''id'', JNum 2)]]),
      (''links'', JArr [JObj [(''term'', JStr ''l''), (''id'', JNum 0)]]),
      (''src'', JArr [JObj [(''term'', JStr ''s''), (''id'', JNum 0)]]),
      (''license'', JArr [JObj [(''term'', JStr ''MIT''), (''id'', JNum 0)]]),
      (''webpage'', JArr [JObj [(''term'', JStr ''http://x''), (''id'', JNum 0)]]),
      (''description'', JArr [JObj [(''term'', JStr ''a''), (''id'', JNum 0)], JObj [(''term'', JStr ''b''), (''id'', JNum 1)]]),
      (''documentation'', JArr [JObj [(''term'', JStr ''d1''), (''id'', JNum 0)], JObj [(''term'', JStr ''d2''), (''id'', JNum 1)]]),
      (''edam_operations'', JArr [JObj [(''term'', JStr ''operation_0004''), (''id'', JNum 0)]]),
      (''edam_topics'', JArr [JObj [(''term'', JStr ''topic_0003''), (''id'', JNum 0)]]),
      (''tags'', JArr [JStr ''t''])]"
proof -
  let ?metadata = "[(''name'', JStr ''tool''),
      (''publication'', JArr [JStr ''p'']),
      (''authors'', JArr [JStr ''A B'', JStr ''C D'']),
      (''os'', JArr [JStr ''linux'']),
      (''dependencies'', JArr [JStr ''dep'']),
      (''repository'', JArr [JStr ''https://github.com/inab/tool'']),
      (''output'', JArr [JStr ''out'']),
      (''input'', JArr [JStr ''i'']),
      (''operations'', JArr [JStr ''o'']),
      (''topics'', JArr [JStr ''t1'', JStr ''t2'', JStr ''t3'']),
      (''links'', JArr [JStr ''l'']),
      (''src'', JArr [JStr ''s'']),
      (''license'', JArr [JStr ''MIT'']),
      (''webpage'', JArr [JStr ''http://x'']),
      (''description'', JArr [JStr ''a'', JStr ''b'']),
      (''documentation'', JArr [JStr ''d1'', JStr ''d2'']),
      (''edam_operations'', JArr [JStr ''operation_0004'']),
      (''edam_topics'', JArr [JStr ''topic_0003'']),
      (''tags'', JArr [JStr ''t''])]"
  have arrays: "\<forall>f\<in>set [''edam_topics'', ''edam_operations'', ''documentation'', ''description'', ''webpage'',
                ''license'', ''src'', ''links'', ''topics'', ''operations'', ''input'', ''output'',
                ''repository'', ''dependencies'', ''os'', ''authors'', ''publication''].
             \<exists>xs. map_of ?metadata f = Some (JArr xs)"
    by simp
  from PrepareListsIds_assigns_ids [OF arrays] obtain metadata' where
    run: "PrepareListsIds ?metadata = Some metadata'"
    and keys: "map fst metadata' = map fst ?metadata"
    by blast
  have "PrepareListsIds ?metadata = Some
     [(''name'', JStr ''tool''),
      (''publication'', JArr [JObj [(''term'', JStr ''p''), (''id'', JNum 0)]]),
      (''authors'', JArr [JObj [(''term'', JStr ''A B''), (''id'', JNum 0)], JObj [(''term'', JStr ''C D''), (''id'', JNum 1)]]),
      (''os'', JArr [JObj [(''term'', JStr ''linux''), (''id'', JNum 0)]]),
      (''dependencies'', JArr [JObj [(''term'', JStr ''dep''), (''id'', JNum 0)]]),
      (''repository'', JArr [JObj [(''term'', JStr ''https://github.com/inab/tool''), (''id'', JNum 0)]]),
      (''output'', JArr [JObj [(''term'', JStr ''out''), (''id'', JNum 0)]]),
      (''input'', JArr [JObj [(''term'', JStr ''i''), (''id'', JNum 0)]]),
      (''operations'', JArr [JObj [(''term'', JStr ''o''), (''id'', JNum 0)]]),
      (''topics'', JArr [JObj [(''term'', JStr ''t1''), (''id'', JNum 0)], JObj [(''term'', JStr ''t2''), (''id'', JNum 1)], JObj [(''term'', JStr ''t3''), (''id'', JNum 2)]]),
      (''links'', JArr [JObj [(''term'', JStr ''l''), (''id'', JNum 0)]]),
      (''src'', JArr [JObj [(''term'', JStr ''s''), (''id'', JNum 0)]]),
      (''license'', JArr [JObj [(''term'', JStr ''MIT''), (''id'', JNum 0)]]),
      (''webpage'', JArr [JObj [(''term'', JStr ''http://x''), (''id'', JNum 0)]]),
      (''description'', JArr [JObj [(''term'', JStr ''a''), (''id'', JNum 0)], JObj [(''term'', JStr ''b''), (''id'', JNum 1)]]),
      (''documentation'', JArr [JObj [(''term'', JStr ''d1''), (''id'', JNum 0)], JObj [(''term'', JStr ''d2''), (''id'', JNum 1)]]),
      (''edam_operations'', JArr [JObj [(''term'', JStr ''operation_0004''), (''id'', JNum 0)]]),
      (''edam_topics'', JArr [JObj [(''term'', JStr ''topic_0003''), (''id'', JNum 0)]]),
      (''tags'', JArr [JStr ''t''])]"
    by (simp add: PrepareListsIds_def fields_def lookup_def)
  with run keys show ?thesis by simp
qed

subsection \<open>Metadata normalizer\<close>

lemma isObject_iff: "isObject v \<longleftrightarrow> (\<exists>al. v = JObj al)"
  by (cases v) (simp_all add: isObject_def)

lemma mapM_returns: "\<forall>x\<in>set xs. \<exists>y. f x = Some y \<Longrightarrow> \<exists>ys. mapM f xs = Some ys"
  by (induction xs) auto

lemma mapM_all:
  "mapM f xs = Some ys \<Longrightarrow> \<forall>x\<in>set xs. P x \<Longrightarrow> (\<And>x y. P x \<Longrightarrow> f x = Some y \<Longrightarrow> Q y)
     \<Longrightarrow> \<forall>y\<in>set ys. Q y"
  by (induction xs arbitrary: ys) (auto split: option.splits)

lemma authorsLoop_returns:
  "\<forall>c\<in>set cs. isObject c \<Longrightarrow> \<exists>authors. authorsLoop cs acc = Some authors"
proof (induction cs arbitrary: acc)
  case Nil
  show ?case by simp
next
  case (Cons c cs)
  then obtain al where "c = JObj al" by (auto simp: isObject_iff)
  then have "\<exists>author. mkAuthor c = Some author" by (simp add: mkAuthor_def)
  with Cons show ?case by auto
qed

lemma path_object_step:
  "isObject (path v (k # ks)) \<Longrightarrow> \<exists>al. v = JObj al \<and> isObject (path (lookup al k) ks)"
  by (cases v) (simp_all add: isObject_def)

lemma path_array_step:
  "path v (k # ks) = JArr xs \<Longrightarrow> \<exists>al. v = JObj al \<and> path (lookup al k) ks = JArr xs"
  by (cases v) simp_all

lemma buildLicense_returns:
  assumes "path (JObj props) [''licenseInfo''] = JNull \<or> isObject (path (JObj props) [''licenseInfo''])"
  shows "\<exists>license. buildLicense (JObj props) = Some license"
  using assms by (auto simp: buildLicense_def isObject_iff)

lemma buildTopics_returns:
  assumes "objectsAt (JObj props) [''repositoryTopics'', ''nodes''] [''topic'']"
  shows "\<exists>topics. buildTopics (JObj props) = Some topics"
proof -
  from assms obtain ns where ns: "path (JObj props) [''repositoryTopics'', ''nodes''] = JArr ns"
    and all: "list_all (\<lambda>x. isObject (path x [''topic''])) ns"
    by (auto simp: objectsAt_def split: jsval.splits)
  from ns obtain rt where rt: "lookup props ''repositoryTopics'' = JObj rt"
    and nodes: "lookup rt ''nodes'' = JArr ns"
    by (auto split: jsval.splits)
  have "\<exists>y. topicItem n = Some y" if "n \<in> set ns" for n
  proof -
    from all that have "isObject (path n [''topic''])" by (simp add: list_all_iff)
    then obtain al t where "n = JObj al" "lookup al ''topic'' = JObj t"
      by (cases n) (auto simp: isObject_iff split: jsval.splits)
    then show ?thesis by (simp add: topicItem_def)
  qed
  then obtain ys where "mapM topicItem ns = Some ys"
    using mapM_returns [of ns topicItem] by blast
  with rt nodes show ?thesis by (simp add: buildTopics_def)
qed

lemma buildAuthors_returns:
  assumes "objectsAt (JObj props) [''defaultBranchRef'', ''target'', ''history'', ''edges'']
          [''node'', ''author'']"
  shows "\<exists>authors. buildAuthors (JObj props) = Some authors"
proof -
  from assms obtain es where
    es: "path (JObj props) [''defaultBranchRef'', ''target'', ''history'', ''edges''] = JArr es"
    and all: "list_all (\<lambda>x. isObject (path x [''node'', ''author''])) es"
    by (auto simp: objectsAt_def split: jsval.splits)
  from es obtain r t h where r: "lookup props ''defaultBranchRef'' = JObj r"
    and t: "lookup r ''target'' = JObj t" and h: "lookup t ''history'' = JObj h"
    and edges: "lookup h ''edges'' = JArr es"
    by (auto split: jsval.splits)
  let ?f = "\<lambda>edge. do { node \<leftarrow> js_get edge ''node''; js_get node ''author'' }"
  have each: "\<exists>c. ?f e = Some c \<and> isObject c" if "e \<in> set es" for e
  proof -
    from all that have "isObject (path e [''node'', ''author''])" by (simp add: list_all_iff)
    then obtain al n c where "e = JObj al" "lookup al ''node'' = JObj n"
      "lookup n ''author'' = JObj c"
      by (cases e) (auto simp: isObject_iff split: jsval.splits)
    then show ?thesis by (simp add: isObject_def)
  qed
  then obtain cs where cs: "mapM ?f es = Some cs"
    using mapM_returns [of es ?f] by blast
  have "\<forall>c\<in>set cs. isObject c"
  proof (rule mapM_all [OF cs, where P = "\<lambda>e. e \<in> set es"])
    show "\<forall>x\<in>set es. x \<in> set es" by simp
  next
    fix x y assume "x \<in> set es" "?f x = Some y"
    with each [of x] show "isObject y" by auto
  qed
  from authorsLoop_returns [OF this, of "[]"] obtain authors where
    "authorsLoop cs [] = Some authors" by blast
  with r t h edges cs show ?thesis
    by (simp add: buildAuthors_def commitAuthors_def)
qed

lemma version_returns:
  assumes "objectsAt (JObj props) [''releases'', ''nodes''] []"
  shows "\<exists>nodes version. js_get (lookup props ''releases'') ''nodes'' = Some nodes
           \<and> js_map (\<lambda>node. js_get node ''tagName'') nodes = Some version"
proof -
  from assms obtain ns where ns: "path (JObj props) [''releases'', ''nodes''] = JArr ns"
    and all: "list_all isObject ns"
    by (auto simp: objectsAt_def split: jsval.splits)
  from ns obtain rel where rel: "lookup props ''releases'' = JObj rel"
    and nodes: "lookup rel ''nodes'' = JArr ns"
    by (auto split: jsval.splits)
  have "\<exists>y. js_get n ''tagName'' = Some y" if "n \<in> set ns" for n
    using all that by (auto simp: list_all_iff isObject_iff)
  then obtain ys where "mapM (\<lambda>node. js_get node ''tagName'') ns = Some ys"
    using mapM_returns [of ns "\<lambda>node. js_get node ''tagName''"] by blast
  with rel nodes show ?thesis by simp
qed

lemma githubMetadata_returns:
  assumes "isReadableReply ghObject"
  shows "\<exists>metadata. githubMetadata ghObject = Some metadata"
proof -
  from assms obtain props where gh: "ghObject = JObj props"
    by (auto simp: isReadableReply_def isObject_iff)
  from assms gh version_returns [of props] obtain nodes version where
    "js_get (lookup props ''releases'') ''nodes'' = Some nodes"
    "js_map (\<lambda>node. js_get node ''tagName'') nodes = Some version"
    by (auto simp: isReadableReply_def)
  moreover from assms gh buildLicense_returns [of props] obtain license where
    "buildLicense (JObj props) = Some license"
    by (auto simp: isReadableReply_def)
  moreover from assms gh buildTopics_returns [of props] obtain topics where
    "buildTopics (JObj props) = Some topics"
    by (auto simp: isReadableReply_def)
  moreover from assms gh buildAuthors_returns [of props] obtain authors where
    "buildAuthors (JObj props) = Some authors"
    by (auto simp: isReadableReply_def)
  ultimately show ?thesis using gh by (simp add: githubMetadata_def)
qed

lemma githubMetadata_fields:
  assumes "githubMetadata ghObject = Some metadata"
  shows "(\<exists>v. js_get ghObject ''description'' = Some v
            \<and> map_of metadata ''description'' = Some (JArr (if v = JNull then [] else [v])))
       \<and> (\<exists>v. js_get ghObject ''mirrorUrl'' = Some v
            \<and> map_of metadata ''links'' = Some (JArr (if v = JNull then [] else [v])))
       \<and> (\<exists>v. js_get ghObject ''homepageUrl'' = Some v
            \<and> map_of metadata ''webpage'' = Some (JArr (if v = JNull then [] else [v])))
       \<and> (\<exists>v. js_get ghObject ''url'' = Some v
            \<and> map_of metadata ''repository'' = Some (JArr (if v = JNull then [] else [v])))
       \<and> (js_get ghObject ''licenseInfo'' = Some JNull
            \<longrightarrow> map_of metadata ''license'' = Some (JArr []))"
proof -
  from assms obtain description mirrorUrl homepageUrl url license where
    d: "js_get ghObject ''description'' = Some description"
    and l: "js_get ghObject ''mirrorUrl'' = Some mirrorUrl"
    and w: "js_get ghObject ''homepageUrl'' = Some homepageUrl"
    and r: "js_get ghObject ''url'' = Some url"
    and lic: "buildLicense ghObject = Some license"
    and md: "map_of metadata ''description'' = Some (JArr (removeNull [description]))"
    and ml: "map_of metadata ''links'' = Some (JArr (removeNull [mirrorUrl]))"
    and mw: "map_of metadata ''webpage'' = Some (JArr (removeNull [homepageUrl]))"
    and mr: "map_of metadata ''repository'' = Some (JArr (removeNull [url]))"
    and mlic: "map_of metadata ''license'' = Some license"
    unfolding githubMetadata_def by (auto simp: bind_eq_Some_conv)
  have rn: "removeNull [v] = (if v = JNull then [] else [v])" for v
    by (cases v) (simp_all add: removeNull_def)
  have "license = JArr []" if "js_get ghObject ''licenseInfo'' = Some JNull"
    using lic that by (simp add: buildLicense_def)
  with d l w r md ml mw mr mlic show ?thesis by (simp add: rn)
qed

text \<open>
  On every reply whose nested reads find objects, \<^verbatim>\<open>githubMetadata\<close> returns a
  record whose \<^verbatim>\<open>description\<close>, \<^verbatim>\<open>links\<close>, \<^verbatim>\<open>webpage\<close> and
  \<^verbatim>\<open>repository\<close> are \<^verbatim>\<open>removeNull\<close> of the one-element array of the
  source property (\<^verbatim>\<open>description\<close>, \<^verbatim>\<open>mirrorUrl\<close>,
  \<^verbatim>\<open>homepageUrl\<close>, \<^verbatim>\<open>url\<close>): the empty sequence when the property is
  \<^verbatim>\<open>null\<close>, and otherwise the one-element sequence of its value. A
  \<^verbatim>\<open>licenseInfo\<close> of \<^verbatim>\<open>null\<close> yields the empty \<^verbatim>\<open>license\<close>.
\<close>

theorem githubMetadata_wraps:
  assumes "isReadableReply (JObj props)"
  shows "\<exists>metadata. githubMetadata (JObj props) = Some metadata
     \<and> map_of metadata ''description'' =
          Some (JArr (if lookup props ''description'' = JNull then []
                      else [lookup props ''description'']))
     \<and> map_of metadata ''links'' =
          Some (JArr (if lookup props ''mirrorUrl'' = JNull then []
                      else [lookup props ''mirrorUrl'']))
     \<and> map_of metadata ''webpage'' =
          Some (JArr (if lookup props ''homepageUrl'' = JNull then []
                      else [lookup props ''homepageUrl'']))
     \<and> map_of metadata ''repository'' =
          Some (JArr (if lookup props ''url'' = JNull then [] else [lookup props ''url'']))
     \<and> (lookup props ''licenseInfo'' = JNull \<longrightarrow> map_of metadata ''license'' = Some (JArr []))"
proof -
  from githubMetadata_returns [OF assms] obtain metadata where
    run: "githubMetadata (JObj props) = Some metadata" by blast
  from githubMetadata_fields [OF run] run show ?thesis by simp
qed

text \<open>
  The theorem at a repository object with \<^verbatim>\<open>description: null\<close>,
  \<^verbatim>\<open>homepageUrl: "http://x"\<close> and \<^verbatim>\<open>licenseInfo: null\<close>.
\<close>

theorem githubMetadata_wraps_witness:
  "\<exists>metadata.
      githubMetadata
        (repositoryObject [(''description'', JNull), (''homepageUrl'', JStr ''http://x'')] [])
        = Some metadata
    \<and> map_of metadata ''description'' = Some (JArr [])
    \<and> map_of metadata ''webpage'' = Some (JArr [JStr ''http://x''])
    \<and> map_of metadata ''license'' = Some (JArr [])"
proof -
  let ?gh = "repositoryObject [(''description'', JNull), (''homepageUrl'', JStr ''http://x'')] []"
  have shape: "isReadableReply ?gh"
    by (simp add: isReadableReply_def objectsAt_def isObject_def repositoryObject_def
        lookup_def)
  from githubMetadata_wraps [OF shape [unfolded repositoryObject_def]]
  show ?thesis
    by (auto simp: repositoryObject_def lookup_def)
qed

text \<open>
  Claim C5 fails on the code. On the reply for an empty repository, with
  \<^verbatim>\<open>description: null\<close>, \<^verbatim>\<open>homepageUrl: "http://x"\<close> and
  \<^verbatim>\<open>licenseInfo: null\<close>, the claim has \<^verbatim>\<open>description: []\<close>,
  \<^verbatim>\<open>webpage: ["http://x"]\<close> and \<^verbatim>\<open>license: []\<close>. The licence and
  the topics are built and \<^verbatim>\<open>removeNull\<close> gives these values, but
  \<^verbatim>\<open>buildAuthors\<close> reads \<^verbatim>\<open>target\<close> of the \<^verbatim>\<open>null\<close>
  \<^verbatim>\<open>defaultBranchRef\<close> (line 166) and throws, so that
  \<^verbatim>\<open>githubMetadata\<close> returns no record.
\<close>

theorem githubMetadata_empty_repository:
  "githubMetadata emptyRepository = None
   \<and> buildAuthors emptyRepository = None
   \<and> commitAuthors emptyRepository = None
   \<and> buildLicense emptyRepository = Some (JArr [])
   \<and> buildTopics emptyRepository = Some (JArr [])
   \<and> js_get emptyRepository ''description'' = Some JNull
   \<and> removeNull [JNull] = []
   \<and> js_get emptyRepository ''homepageUrl'' = Some (JStr ''http://x'')
   \<and> removeNull [JStr ''http://x''] = [JStr ''http://x'']"
  by (simp add: githubMetadata_def buildAuthors_def commitAuthors_def buildLicense_def
      buildTopics_def emptyRepository_def removeNull_def lookup_def)






subsection \<open>Document classifier\<close>

text \<open>
  Claim C4 fails on the code. For the root listing \<^verbatim>\<open>README.md\<close>,
  \<^verbatim>\<open>LICENSE\<close>, \<^verbatim>\<open>NOTES.md\<close> (all files, no known directory present) the
  classifier returns two entries: \<^verbatim>\<open>README.md\<close> as \<^verbatim>\<open>readme\<close> and
  \<^verbatim>\<open>NOTES.md\<close> as \<^verbatim>\<open>root\<close>. The filter on the endings
  \<^verbatim>\<open>.md\<close> and \<^verbatim>\<open>.txt\<close> removes \<^verbatim>\<open>LICENSE\<close> before it is
  compared with the catalog, which lists that very name under \<^verbatim>\<open>license\<close>.
\<close>

theorem classifier_root_listing:
  "fetchDocumentationFiles
     (\<lambda>path. if path = []
        then [JObj [(''name'', JStr ''README.md''), (''type'', JStr ''blob'')],
              JObj [(''name'', JStr ''LICENSE''), (''type'', JStr ''blob'')],
              JObj [(''name'', JStr ''NOTES.md''), (''type'', JStr ''blob'')]]
        else [])
     ''inab'' ''tool''
   = Some [JObj [(''type'', JStr ''readme''),
                 (''url'', JStr ''https://github.com/inab/tool/blob/main/README.md'')],
           JObj [(''type'', JStr ''root''),
                 (''url'', JStr ''https://github.com/inab/tool/blob/main/NOTES.md'')]]"
  by (simp add: fetchDocumentationFiles_def processFiles_def isDocFile_def endsWith_def
      lookup_def classifyFile_def docTypes_def docDirs_def toUpperCase_def upperChar_def
      blobUrl_def)

subsection \<open>CITATION.cff mapper\<close>

lemma pushTo_other:
  "pushTo field v metadata = Some metadata' \<Longrightarrow> k \<noteq> field \<Longrightarrow> map_of metadata' k = map_of metadata k"
  by (auto simp: pushTo_def update_conv' split: jsval.splits)


lemma lookup_map_of: "map_of m' k = map_of m k \<Longrightarrow> lookup m' k = lookup m k"
  by (simp add: lookup_def)


lemma cffTitle_keeps:
  "cffTitle cd m = Some m' \<Longrightarrow> k \<noteq> ''label'' \<Longrightarrow> map_of m' k = map_of m k"
  by (auto simp: cffTitle_def split: Option.bind_splits if_splits dest: pushTo_other)












text \<open>
  Claim C3 fails on the code. For a citation file that parses to a mapping without
  \<^verbatim>\<open>authors\<close>, reading \<^verbatim>\<open>citationData.authors.length\<close> throws; the
  \<^verbatim>\<open>catch\<close> returns the record with the title appended to \<^verbatim>\<open>label\<close>
  and the authors unchanged, but \<^verbatim>\<open>version\<close> and
  \<^verbatim>\<open>preferred-citation\<close>, which come after, are never applied.
\<close>

theorem parseCitationCFF_absent_authors:
  "parseCitationCFF
      (\<lambda>text. Some (JObj [(''title'', JStr ''Tool''), (''version'', JStr ''1.0''),
                           (''preferred-citation'', JObj [(''title'', JStr ''Paper'')])]))
      ''title: Tool ...''
      [(''label'', JArr [JStr ''tool'']), (''license'', JArr []),
       (''authors'', JArr []), (''version'', JArr []), (''publication'', JArr [])]
   = [(''label'', JArr [JStr ''tool'', JStr ''Tool'']), (''license'', JArr []),
      (''authors'', JArr []), (''version'', JArr []), (''publication'', JArr [])]"
  by (simp add: parseCitationCFF_def cffLicense_def cffTitle_def cffAuthors_def pushTo_def
      lookup_def)

subsection \<open>BibTeX extractor\<close>

lemma scanBraces_closes:
  "scanBraces (int k + 1) acc rest = Some e \<Longrightarrow>
     \<exists>body post. rest = body @ CHR ''}'' # post \<and> e = acc @ body @ ''}''
        \<and> balancedFrom k body"
proof (induction rest arbitrary: k acc)
  case Nil
  then show ?case by simp
next
  case (Cons ch rest)
  consider (lbrace) "ch = CHR ''{''" | (rbrace) "ch = CHR ''}''"
    | (plain) "ch \<noteq> CHR ''{''" "ch \<noteq> CHR ''}''" by blast
  then show ?case
  proof cases
    case lbrace
    with Cons.prems have "scanBraces (int (Suc k) + 1) (acc @ [ch]) rest = Some e"
      by (simp add: Let_def add.commute)
    from Cons.IH [OF this] obtain body post where
      "rest = body @ CHR ''}'' # post" "e = (acc @ [ch]) @ body @ ''}''"
      "balancedFrom (Suc k) body" by blast
    with lbrace have "ch # rest = (ch # body) @ CHR ''}'' # post
        \<and> e = acc @ (ch # body) @ ''}'' \<and> balancedFrom k (ch # body)" by simp
    then show ?thesis by blast
  next
    case rbrace
    show ?thesis
    proof (cases k)
      case 0
      with rbrace Cons.prems have "e = acc @ [ch]" by (simp add: Let_def)
      with rbrace 0 have "ch # rest = [] @ CHR ''}'' # rest
        \<and> e = acc @ [] @ ''}'' \<and> balancedFrom k []" by simp
      then show ?thesis by blast
    next
      case (Suc k')
      with rbrace Cons.prems have "scanBraces (int k' + 1) (acc @ [ch]) rest = Some e"
        by (simp add: Let_def add.commute)
      from Cons.IH [OF this] obtain body post where
        "rest = body @ CHR ''}'' # post" "e = (acc @ [ch]) @ body @ ''}''"
        "balancedFrom k' body" by blast
      with rbrace Suc have "ch # rest = (ch # body) @ CHR ''}'' # post
        \<and> e = acc @ (ch # body) @ ''}'' \<and> balancedFrom k (ch # body)" by simp
      then show ?thesis by blast
    qed
  next
    case plain
    with Cons.prems have "scanBraces (int k + 1) (acc @ [ch]) rest = Some e"
      by (simp add: Let_def)
    from Cons.IH [OF this] obtain body post where
      "rest = body @ CHR ''}'' # post" "e = (acc @ [ch]) @ body @ ''}''"
      "balancedFrom k body" by blast
    with plain have "ch # rest = (ch # body) @ CHR ''}'' # post
        \<and> e = acc @ (ch # body) @ ''}'' \<and> balancedFrom k (ch # body)" by simp
    then show ?thesis by blast
  qed
qed

lemma scanBraces_balanced:
  "balancedFrom k body \<Longrightarrow>
     scanBraces (int k + 1) acc (body @ CHR ''}'' # post) = Some (acc @ body @ ''}'')"
proof (induction body arbitrary: k acc)
  case Nil
  then show ?case by simp
next
  case (Cons ch body)
  consider (lbrace) "ch = CHR ''{''" | (rbrace) "ch = CHR ''}''"
    | (plain) "ch \<noteq> CHR ''{''" "ch \<noteq> CHR ''}''" by blast
  then show ?case
  proof cases
    case lbrace
    with Cons.prems have "balancedFrom (Suc k) body" by simp
    from Cons.IH [OF this, of "acc @ [ch]"] lbrace show ?thesis
      by (simp add: Let_def add.commute)
  next
    case rbrace
    with Cons.prems obtain k' where k: "k = Suc k'" and "balancedFrom k' body"
      by (cases k) auto
    from Cons.IH [OF this(2), of "acc @ [ch]"] rbrace k show ?thesis
      by (simp add: Let_def add.commute)
  next
    case plain
    with Cons.prems have "balancedFrom k body" by simp
    from Cons.IH [OF this, of "acc @ [ch]"] plain show ?thesis
      by (simp add: Let_def)
  qed
qed

lemma balancedFrom_plain:
  "CHR ''{'' \<notin> set m \<Longrightarrow> CHR ''}'' \<notin> set m \<Longrightarrow> balancedFrom k (m @ t) = balancedFrom k t"
  by (induction m) auto

lemma balancedFrom_one_open:
  "count_list m CHR ''{'' = 1 \<Longrightarrow> CHR ''}'' \<notin> set m \<Longrightarrow>
     balancedFrom k (m @ t) = balancedFrom (Suc k) t"
proof (induction m)
  case Nil
  then show ?case by simp
next
  case (Cons c m)
  show ?case
  proof (cases "c = CHR ''{''")
    case True
    with Cons.prems have "CHR ''{'' \<notin> set m"
      by (simp add: count_list_0_iff)
    with Cons.prems True show ?thesis by (simp add: balancedFrom_plain)
  next
    case False
    with Cons show ?thesis by auto
  qed
qed

lemma balancedFrom_close:
  "balancedFrom k body \<Longrightarrow> balancedFrom (Suc k) (body @ ''}'')"
proof (induction body arbitrary: k)
  case Nil
  then show ?case by simp
next
  case (Cons ch body)
  show ?case
  proof (cases "ch = CHR ''}''")
    case True
    with Cons.prems have "0 < k" and "balancedFrom (k - 1) body" by simp_all
    from Cons.IH [OF this(2)] this(1) True show ?thesis by simp
  next
    case False
    with Cons show ?thesis by (auto split: if_splits)
  qed
qed

lemma stripKeyword_mismatch:
  "upperChar c \<noteq> upperChar k \<Longrightarrow> stripKeyword (k # kw) (c # s) = None"
  by (auto simp: stripKeyword_def)

lemma neverCloses_scan:
  "neverCloses k rest \<Longrightarrow> scanBraces (int k + 1) acc rest = None"
proof (induction rest arbitrary: k acc)
  case Nil
  show ?case by simp
next
  case (Cons ch rest)
  consider (lbrace) "ch = CHR ''{''" | (rbrace) "ch = CHR ''}''"
    | (plain) "ch \<noteq> CHR ''{''" "ch \<noteq> CHR ''}''" by blast
  then show ?case
  proof cases
    case lbrace
    with Cons.prems have "neverCloses (Suc k) rest" by simp
    from Cons.IH [OF this, of "acc @ [ch]"] lbrace show ?thesis
      by (simp add: Let_def add.commute)
  next
    case rbrace
    with Cons.prems obtain k' where k: "k = Suc k'" and "neverCloses k' rest"
      by (cases k) auto
    from Cons.IH [OF this(2), of "acc @ [ch]"] rbrace k show ?thesis
      by (simp add: Let_def add.commute)
  next
    case plain
    with Cons.prems have "neverCloses k rest" by simp
    from Cons.IH [OF this, of "acc @ [ch]"] plain show ?thesis
      by (simp add: Let_def)
  qed
qed

lemma execLoop_entries:
  "e \<in> set (execLoop s) \<Longrightarrow>
     \<exists>pre m body post. s = pre @ e @ post \<and> e = m @ body @ ''}''
        \<and> matchStart (e @ post) = Some (m, body @ ''}'' @ post) \<and> braceBalanced body"
proof (induction s arbitrary: e rule: execLoop.induct)
  case 1
  then show ?case by simp
next
  case (2 c cs)
  show ?case
  proof (cases "matchStart (c # cs)")
    case None
    with "2.prems" have "e \<in> set (execLoop cs)" by simp
    from "2.IH"(1) [OF None this] obtain pre m body post where
      "cs = pre @ e @ post" "e = m @ body @ ''}''"
      "matchStart (e @ post) = Some (m, body @ ''}'' @ post)" "braceBalanced body" by blast
    then have "c # cs = (c # pre) @ e @ post \<and> e = m @ body @ ''}''
        \<and> matchStart (e @ post) = Some (m, body @ ''}'' @ post) \<and> braceBalanced body" by simp
    then show ?thesis by blast
  next
    case (Some mr)
    obtain m rest where mr: "mr = (m, rest)" by (cases mr)
    from matchStart_parts [of "c # cs" m rest] Some mr have ccs: "c # cs = m @ rest" by simp
    have later: ?thesis if "e \<in> set (execLoop rest)"
    proof -
      from "2.IH"(2) [OF Some mr [symmetric] _ that] "2.IH"(3) [OF Some mr [symmetric] _ that]
      obtain pre m' body post where
        "rest = pre @ e @ post" "e = m' @ body @ ''}''"
        "matchStart (e @ post) = Some (m', body @ ''}'' @ post)" "braceBalanced body"
        by (cases "scanBraces 1 m rest") blast+
      with ccs have "c # cs = (m @ pre) @ e @ post \<and> e = m' @ body @ ''}''
        \<and> matchStart (e @ post) = Some (m', body @ ''}'' @ post) \<and> braceBalanced body" by simp
      then show ?thesis by blast
    qed
    show ?thesis
    proof (cases "scanBraces 1 m rest")
      case None
      with "2.prems" Some mr have "e \<in> set (execLoop rest)" by simp
      then show ?thesis by (rule later)
    next
      case (Some entry)
      with "2.prems" \<open>matchStart (c # cs) = Some mr\<close> mr
      consider "e = entry" | "e \<in> set (execLoop rest)" by auto
      then show ?thesis
      proof cases
        case 1
        from scanBraces_closes [of 0 m rest entry] Some obtain body post where
          "rest = body @ CHR ''}'' # post" "entry = m @ body @ ''}''" "balancedFrom 0 body"
          by auto
        with 1 ccs \<open>matchStart (c # cs) = Some mr\<close> mr
        have "c # cs = [] @ e @ post \<and> e = m @ body @ ''}''
          \<and> matchStart (e @ post) = Some (m, body @ ''}'' @ post) \<and> braceBalanced body"
          by (simp add: braceBalanced_def)
        then show ?thesis by blast
      next
        case 2
        then show ?thesis by (rule later)
      qed
    qed
  qed
qed

lemma execLoop_no_at: "CHR ''@'' \<notin> set s \<Longrightarrow> execLoop s = []"
  by (induction s) (auto simp: matchStart_def)

lemma upperChar_brace:
  assumes "upperChar c \<in> set ''ABCDEFGHIJKLMNOPQRSTUVWXYZ''"
  shows "c \<noteq> CHR ''{'' \<and> c \<noteq> CHR ''}''"
proof -
  have "upperChar CHR ''{'' = CHR ''{''" and "upperChar CHR ''}'' = CHR ''}''"
    by (simp_all add: upperChar_def)
  with assms show ?thesis by auto
qed

lemma keyword_upper:
  "map upperChar ''article'' = ''ARTICLE''"
  "map upperChar ''INPROCEEDINGS'' = ''INPROCEEDINGS''"
  by (simp_all add: upperChar_def)

lemma keyword_no_brace:
  assumes "map upperChar kw = ''ARTICLE'' \<or> map upperChar kw = ''INPROCEEDINGS''"
  shows "CHR ''{'' \<notin> set kw \<and> CHR ''}'' \<notin> set kw"
proof -
  have sub: "set (map upperChar kw) \<subseteq> set ''ABCDEFGHIJKLMNOPQRSTUVWXYZ''"
  proof (cases "map upperChar kw = ''ARTICLE''")
    case True
    show ?thesis unfolding True by simp
  next
    case False
    with assms have inp: "map upperChar kw = ''INPROCEEDINGS''" by simp
    show ?thesis unfolding inp by simp
  qed
  have "c \<noteq> CHR ''{'' \<and> c \<noteq> CHR ''}''" if "c \<in> set kw" for c
  proof (rule upperChar_brace)
    from that have "upperChar c \<in> set (map upperChar kw)" by simp
    with sub show "upperChar c \<in> set ''ABCDEFGHIJKLMNOPQRSTUVWXYZ''" by (rule_tac subsetD)
  qed
  then show ?thesis by blast
qed

lemma stripKeyword_found:
  assumes eq: "map upperChar kw = map upperChar word"
  shows "stripKeyword word (kw @ r) = Some (kw, r)"
proof -
  from eq have "length kw = length word" by (metis length_map)
  with eq show ?thesis by (simp add: stripKeyword_def)
qed

lemma keyword_found:
  assumes "map upperChar kw = ''ARTICLE'' \<or> map upperChar kw = ''INPROCEEDINGS''"
  shows "(case stripKeyword ''article'' (kw @ r) of Some x \<Rightarrow> Some x
          | None \<Rightarrow> stripKeyword ''INPROCEEDINGS'' (kw @ r)) = Some (kw, r)"
proof (cases "map upperChar kw = ''ARTICLE''")
  case True
  then have "map upperChar kw = map upperChar ''article''" by (simp only: keyword_upper)
  from stripKeyword_found [OF this] show ?thesis by simp
next
  case False
  with assms have inp: "map upperChar kw = ''INPROCEEDINGS''" by simp
  then have "map upperChar kw = map upperChar ''INPROCEEDINGS''" by (simp only: keyword_upper)
  note found = stripKeyword_found [OF this, of r]
  from inp obtain c kw' where kw: "kw = c # kw'" and c: "upperChar c = CHR ''I''"
    by (cases kw) simp_all
  have "upperChar CHR ''a'' = CHR ''A''" by (simp add: upperChar_def)
  with c have "upperChar c \<noteq> upperChar CHR ''a''" by simp
  from stripKeyword_mismatch [OF this, of "''rticle''" "kw' @ r"] kw
  have "stripKeyword ''article'' (kw @ r) = None" by simp
  with found show ?thesis by simp
qed

lemma spaces_then_brace:
  assumes ws: "list_all isSpace ws"
  shows "dropWhile isSpace (ws @ CHR ''{'' # s) = CHR ''{'' # s"
    and "takeWhile isSpace (ws @ CHR ''{'' # s) = ws"
    and "CHR ''{'' \<notin> set ws" and "CHR ''}'' \<notin> set ws"
proof -
  have nsp: "\<not> isSpace CHR ''{''" "\<not> isSpace CHR ''}''" by (simp_all add: isSpace_def)
  from ws have all: "\<forall>x\<in>set ws. isSpace x" by (simp add: list_all_iff)
  show "dropWhile isSpace (ws @ CHR ''{'' # s) = CHR ''{'' # s"
    using all nsp by (simp add: dropWhile_append2)
  show "takeWhile isSpace (ws @ CHR ''{'' # s) = ws"
    using all nsp by (simp add: takeWhile_append2)
  show "CHR ''{'' \<notin> set ws" using all nsp by blast
  show "CHR ''}'' \<notin> set ws" using all nsp by blast
qed

lemma key_then_comma:
  assumes "CHR '','' \<notin> set key"
  shows "dropWhile (\<lambda>x. x \<noteq> CHR '','') (key @ CHR '','' # t) = CHR '','' # t"
    and "takeWhile (\<lambda>x. x \<noteq> CHR '','') (key @ CHR '','' # t) = key"
proof -
  from assms have nc: "\<forall>x\<in>set key. x \<noteq> CHR '',''" by auto
  show "dropWhile (\<lambda>x. x \<noteq> CHR '','') (key @ CHR '','' # t) = CHR '','' # t"
    using nc by (simp add: dropWhile_append2)
  show "takeWhile (\<lambda>x. x \<noteq> CHR '','') (key @ CHR '','' # t) = key"
    using nc by (simp add: takeWhile_append2)
qed

lemma matchStart_header:
  assumes kw: "isKeyword kw" and ws: "list_all isSpace ws"
    and key: "key \<noteq> []" "CHR '','' \<notin> set key"
  shows "matchStart (headerText kw ws key @ r) = Some (headerText kw ws key, r)"
proof -
  let ?s = "key @ CHR '','' # r"
  from kw have kw': "map upperChar kw = ''ARTICLE'' \<or> map upperChar kw = ''INPROCEEDINGS''"
    by (simp add: isKeyword_def)
  have kf: "(case stripKeyword ''article'' (kw @ ws @ CHR ''{'' # ?s) of Some x \<Rightarrow> Some x
             | None \<Rightarrow> stripKeyword ''INPROCEEDINGS'' (kw @ ws @ CHR ''{'' # ?s))
            = Some (kw, ws @ CHR ''{'' # ?s)"
    by (rule keyword_found [OF kw'])
  have "matchStart (CHR ''@'' # kw @ ws @ CHR ''{'' # ?s)
          = Some (CHR ''@'' # kw @ ws @ CHR ''{'' # key @ '','', r)"
    unfolding matchStart_def list.case kf option.case prod.case
      spaces_then_brace(1,2) [OF ws] key_then_comma [OF key(2)]
    using key(1) by simp
  then show ?thesis by (simp add: headerText_def)
qed

lemma stripKeyword_upper:
  "stripKeyword word s = Some (m, r) \<Longrightarrow> map upperChar m = map upperChar word"
  by (auto simp: stripKeyword_def split: if_splits)

lemma stripKeyword_keyword:
  assumes "(case stripKeyword ''article'' s1 of Some r \<Rightarrow> Some r
            | None \<Rightarrow> stripKeyword ''INPROCEEDINGS'' s1) = Some (kw, s2)"
  shows "isKeyword kw"
proof (cases "stripKeyword ''article'' s1")
  case (Some x)
  with assms have "stripKeyword ''article'' s1 = Some (kw, s2)" by simp
  from stripKeyword_upper [OF this] show ?thesis
    by (simp only: keyword_upper isKeyword_def) simp
next
  case None
  with assms have "stripKeyword ''INPROCEEDINGS'' s1 = Some (kw, s2)" by simp
  from stripKeyword_upper [OF this] show ?thesis
    by (simp only: keyword_upper isKeyword_def) simp
qed

lemma matchStart_shape:
  assumes "matchStart s = Some (m, r)"
  obtains kw ws key where "m = headerText kw ws key" "s = m @ r" "isKeyword kw"
    "list_all isSpace ws" "key \<noteq> []" "CHR '','' \<notin> set key"
proof -
  from assms obtain c s1 where s: "s = c # s1" and c: "c = CHR ''@''"
    by (auto simp: matchStart_def split: list.splits if_splits)
  from assms s c obtain kw s2 where
    kw: "(case stripKeyword ''article'' s1 of Some r \<Rightarrow> Some r
          | None \<Rightarrow> stripKeyword ''INPROCEEDINGS'' s1) = Some (kw, s2)"
    by (auto simp: matchStart_def split: option.splits)
  from assms s c kw obtain b s3 where sp: "dropWhile isSpace s2 = b # s3" and b: "b = CHR ''{''"
    by (auto simp: matchStart_def split: list.splits if_splits)
  from assms s c kw sp b obtain comma s4 where
    key: "dropWhile (\<lambda>x. x \<noteq> CHR '','') s3 = comma # s4"
    and nonempty: "takeWhile (\<lambda>x. x \<noteq> CHR '','') s3 \<noteq> []"
    by (auto simp: matchStart_def split: list.splits if_splits)
  from assms s c kw sp b key nonempty have
    m: "m = c # kw @ takeWhile isSpace s2 @ b # takeWhile (\<lambda>x. x \<noteq> CHR '','') s3 @ [comma]"
    and r: "r = s4"
    by (auto simp: matchStart_def)
  have comma: "comma = CHR '',''"
    using hd_dropWhile [of "\<lambda>x. x \<noteq> CHR '',''" s3] key by simp
  let ?ws = "takeWhile isSpace s2" and ?key = "takeWhile (\<lambda>x. x \<noteq> CHR '','') s3"
  have "m = headerText kw ?ws ?key"
    using m c b comma by (simp add: headerText_def)
  moreover have "s = m @ r"
    using matchStart_parts [OF assms] by simp
  moreover have "isKeyword kw"
    using stripKeyword_keyword [OF kw] by simp
  moreover have "list_all isSpace ?ws"
    by (auto simp: list_all_iff dest: set_takeWhileD)
  moreover have "CHR '','' \<notin> set ?key"
    by (auto dest: set_takeWhileD)
  ultimately show thesis using nonempty that by blast
qed

lemma openingRest_spaces: "list_all isSpace ws \<Longrightarrow> openingRest (ws @ CHR ''{'' # r)"
  by (induction ws) simp_all

lemma openingRest_cut:
  assumes "openingRest (x @ u)" and "u = [] \<or> hd u = CHR ''@'' \<or> hd u = CHR ''}''"
  shows "openingRest x"
  using assms
proof (induction x)
  case Nil
  then show ?case by (cases u) (auto simp: isSpace_def)
next
  case (Cons c x)
  then show ?case by auto
qed

lemma matchStart_opening:
  assumes "matchStart s = Some (m, r)"
  shows "startsOpening s"
proof -
  from assms obtain kw ws key where m: "m = headerText kw ws key" and s: "s = m @ r"
    and kw: "isKeyword kw" and ws: "list_all isSpace ws"
    by (rule matchStart_shape)
  let ?t = "ws @ CHR ''{'' # key @ CHR '','' # r"
  have shape: "s = CHR ''@'' # kw @ ?t"
    using m s by (simp add: headerText_def)
  have rest: "openingRest ?t"
    using ws by (rule openingRest_spaces)
  from kw consider (article) "map upperChar kw = ''ARTICLE''"
    | (inproceedings) "map upperChar kw = ''INPROCEEDINGS''"
    by (auto simp: isKeyword_def)
  then show ?thesis
  proof cases
    case article
    then have "length kw = 7" using length_map [of upperChar kw] by simp
    with article rest shape show ?thesis by (simp add: startsOpening_def)
  next
    case inproceedings
    then have "length kw = 13" using length_map [of upperChar kw] by simp
    with inproceedings rest shape show ?thesis by (simp add: startsOpening_def)
  qed
qed

lemma keyword_cut:
  assumes word: "map upperChar (take n (t @ u)) = word" and len: "length word = n"
    and letters: "CHR ''@'' \<notin> set word" "CHR ''}'' \<notin> set word"
    and rest: "openingRest (drop n (t @ u))"
    and stop: "u = [] \<or> hd u = CHR ''@'' \<or> hd u = CHR ''}''"
  shows "map upperChar (take n t) = word \<and> openingRest (drop n t)"
proof (cases "n \<le> length t")
  case True
  with word rest have "map upperChar (take n t) = word" "openingRest (drop n t @ u)"
    by simp_all
  with stop show ?thesis using openingRest_cut by blast
next
  case False
  then have short: "length t < n" by simp
  have "u \<noteq> []"
  proof
    assume "u = []"
    with word short have "length word = length t" using length_map [of upperChar t] by auto
    with len short show False by simp
  qed
  then obtain a u' where u: "u = a # u'" by (cases u) auto
  have cut: "take n (t @ u) = t @ a # take (n - length t - 1) u'"
    using short u by (simp add: take_Cons')
  have "word = map upperChar t @ upperChar a # map upperChar (take (n - length t - 1) u')"
    using word unfolding cut by simp
  then have "upperChar a \<in> set word" by simp
  moreover have "upperChar CHR ''@'' = CHR ''@''" "upperChar CHR ''}'' = CHR ''}''"
    by (simp_all add: upperChar_def)
  ultimately show ?thesis using stop u letters by auto
qed

lemma startsOpening_cut:
  assumes "startsOpening (t @ u)" and "t \<noteq> []"
    and stop: "u = [] \<or> hd u = CHR ''@'' \<or> hd u = CHR ''}''"
  shows "startsOpening t"
proof -
  from assms(2) obtain c t1 where t: "t = c # t1" by (cases t) auto
  with assms(1) have c: "c = CHR ''@''"
    and alt: "(map upperChar (take 7 (t1 @ u)) = ''ARTICLE'' \<and> openingRest (drop 7 (t1 @ u)))
      \<or> (map upperChar (take 13 (t1 @ u)) = ''INPROCEEDINGS'' \<and> openingRest (drop 13 (t1 @ u)))"
    by (simp_all add: startsOpening_def)
  from alt show ?thesis
  proof
    assume "map upperChar (take 7 (t1 @ u)) = ''ARTICLE'' \<and> openingRest (drop 7 (t1 @ u))"
    then have "map upperChar (take 7 t1) = ''ARTICLE'' \<and> openingRest (drop 7 t1)"
      using keyword_cut [of 7 t1 u "''ARTICLE''"] stop by simp
    with t c show ?thesis by (simp add: startsOpening_def)
  next
    assume "map upperChar (take 13 (t1 @ u)) = ''INPROCEEDINGS''
      \<and> openingRest (drop 13 (t1 @ u))"
    then have "map upperChar (take 13 t1) = ''INPROCEEDINGS'' \<and> openingRest (drop 13 t1)"
      using keyword_cut [of 13 t1 u "''INPROCEEDINGS''"] stop by simp
    with t c show ?thesis by (simp add: startsOpening_def)
  qed
qed

lemma noOpening_skips:
  assumes "noOpening t" and stop: "u = [] \<or> hd u = CHR ''@'' \<or> hd u = CHR ''}''"
  shows "execLoop (t @ u) = execLoop u"
  using assms(1)
proof (induction t)
  case Nil
  show ?case by simp
next
  case (Cons c t)
  then have no: "\<not> startsOpening (c # t)" and IH: "execLoop (t @ u) = execLoop u" by simp_all
  have "matchStart (c # t @ u) = None"
  proof (cases "matchStart (c # t @ u)")
    case None
    then show ?thesis .
  next
    case (Some mr)
    then have "startsOpening ((c # t) @ u)"
      using matchStart_opening [of "c # t @ u" "fst mr" "snd mr"] by simp
    from startsOpening_cut [OF this _ stop] no show ?thesis by simp
  qed
  with IH show ?case by simp
qed

lemma documentText_stop:
  "documentText document = [] \<or> hd (documentText document) = CHR ''@''"
proof (cases document)
  case Nil
  then show ?thesis by simp
next
  case (Cons p rest)
  obtain i j where p: "p = (i, j)" by (cases p)
  show ?thesis using Cons p by (cases i) (simp_all add: headerText_def)
qed

lemma entry_balanced:
  assumes "CHR ''{'' \<notin> set key" "CHR ''}'' \<notin> set key" "isKeyword kw" "list_all isSpace ws"
    and "braceBalanced body"
  shows "braceBalanced (headerText kw ws key @ body @ ''}'')"
proof -
  from assms(3) have kw: "map upperChar kw = ''ARTICLE'' \<or> map upperChar kw = ''INPROCEEDINGS''"
    by (simp add: isKeyword_def)
  have "count_list kw CHR ''{'' = 0" "count_list ws CHR ''{'' = 0" "count_list key CHR ''{'' = 0"
    using keyword_no_brace [OF kw] spaces_then_brace(3) [OF assms(4)] assms(1)
    by (simp_all add: count_list_0_iff)
  then have one: "count_list (headerText kw ws key) CHR ''{'' = 1"
    by (simp add: headerText_def)
  have none: "CHR ''}'' \<notin> set (headerText kw ws key)"
    using keyword_no_brace [OF kw] spaces_then_brace(4) [OF assms(4)] assms(2)
    by (simp add: headerText_def)
  show ?thesis
    using balancedFrom_one_open [OF one none, of 0 "body @ ''}''"]
      balancedFrom_close [of 0 body] assms(5)
    by (simp add: braceBalanced_def)
qed

lemma execLoop_complete:
  assumes h: "isHeader kw ws key" and body: "braceBalanced body" "noOpening body"
    and j: "noOpening j"
  shows "execLoop (headerText kw ws key @ body @ ''}'' @ j @ documentText rest)
           = (headerText kw ws key @ body @ ''}'') # execLoop (documentText rest)"
proof -
  let ?h = "headerText kw ws key" and ?d = "documentText rest"
  from h have parts: "isKeyword kw" "list_all isSpace ws" "key \<noteq> []" "CHR '','' \<notin> set key"
    by (simp_all add: isHeader_def)
  obtain cs where ccs: "?h @ body @ ''}'' @ j @ ?d = CHR ''@'' # cs"
    by (simp add: headerText_def)
  have ms: "matchStart (CHR ''@'' # cs) = Some (?h, body @ ''}'' @ j @ ?d)"
    using matchStart_header [OF parts, of "body @ ''}'' @ j @ ?d"] ccs by simp
  have scan: "scanBraces 1 ?h (body @ ''}'' @ j @ ?d) = Some (?h @ body @ ''}'')"
    using scanBraces_balanced [of 0 body ?h "j @ ?d"] body(1) by (simp add: braceBalanced_def)
  have "execLoop (body @ CHR ''}'' # j @ ?d) = execLoop (CHR ''}'' # j @ ?d)"
    using noOpening_skips [OF body(2), of "CHR ''}'' # j @ ?d"] by simp
  also have "\<dots> = execLoop (j @ ?d)"
    by (simp add: matchStart_def)
  also have "\<dots> = execLoop ?d"
    using noOpening_skips [OF j, of ?d] documentText_stop [of rest] by blast
  finally have "execLoop (body @ ''}'' @ j @ ?d) = execLoop ?d" by simp
  with ms scan have "execLoop (CHR ''@'' # cs) = (?h @ body @ ''}'') # execLoop ?d" by simp
  with ccs show ?thesis by simp
qed

lemma execLoop_unterminated:
  assumes h: "isHeader kw ws key" and j: "noOpening j"
    and never: "neverCloses 0 (j @ documentText rest)"
  shows "execLoop (headerText kw ws key @ j @ documentText rest) = execLoop (documentText rest)"
proof -
  let ?h = "headerText kw ws key" and ?d = "documentText rest"
  from h have parts: "isKeyword kw" "list_all isSpace ws" "key \<noteq> []" "CHR '','' \<notin> set key"
    by (simp_all add: isHeader_def)
  obtain cs where ccs: "?h @ j @ ?d = CHR ''@'' # cs"
    by (simp add: headerText_def)
  have ms: "matchStart (CHR ''@'' # cs) = Some (?h, j @ ?d)"
    using matchStart_header [OF parts, of "j @ ?d"] ccs by simp
  have scan: "scanBraces 1 ?h (j @ ?d) = None"
    using neverCloses_scan [OF never, of ?h] by simp
  have "execLoop (j @ ?d) = execLoop ?d"
    using noOpening_skips [OF j, of ?d] documentText_stop [of rest] by blast
  with ms scan have "execLoop (CHR ''@'' # cs) = execLoop ?d" by simp
  with ccs show ?thesis by simp
qed

lemma execLoop_document:
  "wellFormedDocument document \<Longrightarrow> execLoop (documentText document) = completeEntries document"
proof (induction document rule: completeEntries.induct)
  case 1
  show ?case by simp
next
  case (2 kw ws key body j rest)
  then show ?case using execLoop_complete [of kw ws key body j rest] by simp
next
  case (3 kw ws key j rest)
  then show ?case using execLoop_unterminated [of kw ws key j rest] by simp
qed

lemma completeEntries_balanced:
  "wellFormedDocument document \<Longrightarrow> e \<in> set (completeEntries document) \<Longrightarrow> braceBalanced e"
proof (induction document rule: completeEntries.induct)
  case 1
  then show ?case by simp
next
  case (2 kw ws key body j rest)
  then have "isHeader kw ws key" "braceBalanced body" by simp_all
  then have "braceBalanced (headerText kw ws key @ body @ ''}'')"
    using entry_balanced [of key kw ws body] by (simp add: isHeader_def)
  with 2 show ?case by auto
next
  case (3 kw ws key j rest)
  then show ?case by simp
qed

lemma execLoop_syntax:
  assumes "e \<in> set (execLoop s)"
  shows "\<exists>pre post kw ws key body.
           s = pre @ e @ post \<and> e = headerText kw ws key @ body @ ''}''
         \<and> isKeyword kw \<and> list_all isSpace ws \<and> key \<noteq> [] \<and> CHR '','' \<notin> set key
         \<and> braceBalanced body
         \<and> (CHR ''{'' \<notin> set key \<and> CHR ''}'' \<notin> set key \<longrightarrow> braceBalanced e)"
proof -
  from execLoop_entries [OF assms] obtain pre m body post where
    s: "s = pre @ e @ post" and e: "e = m @ body @ ''}''"
    and ms: "matchStart (e @ post) = Some (m, body @ ''}'' @ post)" and bal: "braceBalanced body"
    by blast
  from ms obtain kw ws key where m: "m = headerText kw ws key"
    and parts: "isKeyword kw" "list_all isSpace ws" "key \<noteq> []" "CHR '','' \<notin> set key"
    by (rule matchStart_shape)
  have "braceBalanced e" if "CHR ''{'' \<notin> set key" "CHR ''}'' \<notin> set key"
    using entry_balanced [OF that parts(1,2) bal] e m by simp
  with s e m parts bal show ?thesis by blast
qed

text \<open>
  Claim C1, as amended. Let the text be the argument after \<^verbatim>\<open>String\<close>, the
  removal of back ticks and the normalisation. If the text is a stretch without entry
  opening followed by a well-formed document (complete and unterminated entries, each
  followed by a stretch without entry opening; every key not empty and without comma
  and brace; the body of every complete entry brace-balanced and without entry opening),
  then \<^verbatim>\<open>extractBibTeXEntries\<close> returns exactly the complete entries, in
  document order, each from its at sign to its matching closing brace and
  brace-balanced; the unterminated entries are omitted. For every argument, every
  string returned is a substring of the text that consists of a header with a key that
  is not empty and holds no comma, a brace-balanced body and one closing brace; it is
  brace-balanced when the key holds no brace.
\<close>

theorem extractBibTeXEntries_wellformed:
  assumes "nfkd (filter (\<lambda>c. c \<noteq> CHR 0x60) (js_toString content)) = junk @ documentText document"
    and "noOpening junk"
    and "wellFormedDocument document"
  shows "extractBibTeXEntries nfkd content = completeEntries document
    \<and> (\<forall>e\<in>set (extractBibTeXEntries nfkd content). braceBalanced e)
    \<and> (\<forall>other e. e \<in> set (extractBibTeXEntries nfkd other) \<longrightarrow>
          (\<exists>pre post kw ws key body.
              nfkd (filter (\<lambda>c. c \<noteq> CHR 0x60) (js_toString other)) = pre @ e @ post
            \<and> e = headerText kw ws key @ body @ ''}''
            \<and> isKeyword kw \<and> list_all isSpace ws \<and> key \<noteq> [] \<and> CHR '','' \<notin> set key
            \<and> braceBalanced body
            \<and> (CHR ''{'' \<notin> set key \<and> CHR ''}'' \<notin> set key \<longrightarrow> braceBalanced e)))"
proof -
  have "extractBibTeXEntries nfkd content = execLoop (junk @ documentText document)"
    using assms(1) by (simp add: extractBibTeXEntries_def)
  also have "\<dots> = execLoop (documentText document)"
    using noOpening_skips [OF assms(2), of "documentText document"]
      documentText_stop [of document] by blast
  also have "\<dots> = completeEntries document"
    using assms(3) by (rule execLoop_document)
  finally have result: "extractBibTeXEntries nfkd content = completeEntries document" .
  moreover have "\<forall>e\<in>set (extractBibTeXEntries nfkd content). braceBalanced e"
    using result completeEntries_balanced [OF assms(3)] by simp
  moreover have "\<exists>pre post kw ws key body.
              nfkd (filter (\<lambda>c. c \<noteq> CHR 0x60) (js_toString other)) = pre @ e @ post
            \<and> e = headerText kw ws key @ body @ ''}''
            \<and> isKeyword kw \<and> list_all isSpace ws \<and> key \<noteq> [] \<and> CHR '','' \<notin> set key
            \<and> braceBalanced body
            \<and> (CHR ''{'' \<notin> set key \<and> CHR ''}'' \<notin> set key \<longrightarrow> braceBalanced e)"
    if "e \<in> set (extractBibTeXEntries nfkd other)" for other e
    using that unfolding extractBibTeXEntries_def by (rule execLoop_syntax)
  ultimately show ?thesis by blast
qed

text \<open>
  The theorem at a text with an email address, two entries (one of them between back
  ticks, one an \<^verbatim>\<open>@InProceedings\<close> with a space before the brace) and an
  unterminated entry at the end: the two entries are returned, the third is omitted.
\<close>

theorem extractBibTeXEntries_wellformed_witness:
  "extractBibTeXEntries (\<lambda>s. s)
     (JStr ''mail a@b.org `@article{k1, title={A {B} c}}` and @InProceedings {k2,x={y}} then @article{bad, t={x'')
   = [''@article{k1, title={A {B} c}}'', ''@InProceedings {k2,x={y}}'']
   \<and> braceBalanced ''@article{k1, title={A {B} c}}''
   \<and> braceBalanced ''@InProceedings {k2,x={y}}''"
proof -
  let ?document = "[(Entry ''article'' [] ''k1'' '' title={A {B} c}'', '' and ''),
       (Entry ''InProceedings'' '' '' ''k2'' ''x={y}'', '' then ''),
       (Unterminated ''article'' [] ''bad'', '' t={x'')]"
  have h1: "(\<lambda>s. s) (filter (\<lambda>c. c \<noteq> CHR 0x60) (js_toString
      (JStr ''mail a@b.org `@article{k1, title={A {B} c}}` and @InProceedings {k2,x={y}} then @article{bad, t={x'')))
    = ''mail a@b.org '' @ documentText ?document"
    by (simp add: headerText_def)
  have h2: "noOpening ''mail a@b.org ''"
    by (simp add: startsOpening_def)
  have h3: "wellFormedDocument ?document"
    by (simp add: isHeader_def isKeyword_def braceBalanced_def startsOpening_def
        upperChar_def isSpace_def)
  from extractBibTeXEntries_wellformed
    [of "\<lambda>s. s"
        "JStr ''mail a@b.org `@article{k1, title={A {B} c}}` and @InProceedings {k2,x={y}} then @article{bad, t={x''"
        "''mail a@b.org ''" ?document, OF h1 h2 h3]
  show ?thesis by (simp add: headerText_def)
qed

text \<open>
  The claim as stated fails. A key that holds a brace makes the scan stop one brace
  early, and the string returned is not brace-balanced. An entry without a comma after
  its key, or with an empty key, is not found. An entry inside the body of another is
  returned as well, after the outer one. An opening whose key runs over a closing brace
  up to the comma of the next entry makes one string of the two. A back tick inside an
  entry is removed, so that the string returned is not a substring of the argument.
\<close>

theorem extractBibTeXEntries_unbalanced:
  "extractBibTeXEntries (\<lambda>s. s) (JStr ''@article{a{b,c}'') = [''@article{a{b,c}'']
   \<and> \<not> braceBalanced ''@article{a{b,c}''
   \<and> extractBibTeXEntries (\<lambda>s. s) (JStr ''@article{k}'') = []
   \<and> extractBibTeXEntries (\<lambda>s. s) (JStr ''@article{,t={x}}'') = []
   \<and> extractBibTeXEntries (\<lambda>s. s) (JStr ''@article{a, x={@article{b, y}}}'')
       = [''@article{a, x={@article{b, y}}}'', ''@article{b, y}'']
   \<and> extractBibTeXEntries (\<lambda>s. s) (JStr ''@article{k} @inproceedings{z,}'')
       = [''@article{k} @inproceedings{z,}'']
   \<and> extractBibTeXEntries (\<lambda>s. s) (JStr ''@article{k, t={a`b}}'') = [''@article{k, t={ab}}'']"
  by (simp add: extractBibTeXEntries_def matchStart_def stripKeyword_def upperChar_def
      isSpace_def braceBalanced_def)

text \<open>
  Claim C9. When the README is absent (\<^verbatim>\<open>null\<close> or \<^verbatim>\<open>undefined\<close>) the
  extractor scans the text \<^verbatim>\<open>String\<close> makes of it, \<^verbatim>\<open>"null"\<close> or
  \<^verbatim>\<open>"undefined"\<close>, finds no entry there, and
  \<^verbatim>\<open>extractJournalPublication\<close> returns the empty sequence without throwing
  (given that the normalisation leaves ASCII text unchanged).
\<close>

theorem absent_readme_no_publications:
  assumes "\<And>s. asciiOnly s \<Longrightarrow> nfkd s = s"
  shows "extractJournalPublication parse nfkd JNull = []
       \<and> extractJournalPublication parse nfkd JUndefined = []
       \<and> extractBibTeXEntries nfkd JNull = execLoop ''null''
       \<and> extractBibTeXEntries nfkd JUndefined = execLoop ''undefined''"
proof -
  have n: "nfkd ''null'' = ''null''" and u: "nfkd ''undefined'' = ''undefined''"
    by (rule assms, simp add: asciiOnly_def)+
  have "extractBibTeXEntries nfkd JNull = execLoop ''null''"
    by (simp add: extractBibTeXEntries_def n)
  moreover have "extractBibTeXEntries nfkd JUndefined = execLoop ''undefined''"
    by (simp add: extractBibTeXEntries_def u)
  moreover have "execLoop ''null'' = []" "execLoop ''undefined'' = []"
    by (rule execLoop_no_at, simp)+
  ultimately show ?thesis
    by (simp add: extractJournalPublication_def)
qed

theorem absent_readme_no_publications_witness:
  "extractJournalPublication (\<lambda>entry. None) (\<lambda>s. s) JNull = []
   \<and> extractJournalPublication (\<lambda>entry. None) (\<lambda>s. s) JUndefined = []"
  using absent_readme_no_publications [of "\<lambda>s. s" "\<lambda>entry. None"] by simp

subsection \<open>Publication builder\<close>

lemma publicationsLoop_acc:
  "publicationsLoop parse entries acc = acc @ List.map_filter (newPublication parse) entries"
  by (induction entries arbitrary: acc) (auto split: option.splits)

lemma cleanValue_braces: "cleanValue (JStr (CHR ''{'' # mid @ ''}'')) = JStr (trim mid)"
  by (simp add: cleanValue_def startsWith_def endsWith_def)

lemma cleanValue_other:
  "\<not> (startsWith s ''{'' \<and> endsWith s ''}'') \<Longrightarrow> cleanValue (JStr s) = JStr s"
  by (auto simp: cleanValue_def)

text \<open>
  Claim C7, as amended. For an entry that parses to an entry object, the publication
  holds \<^verbatim>\<open>title\<close>, \<^verbatim>\<open>year\<close>, \<^verbatim>\<open>doi\<close> and
  \<^verbatim>\<open>url\<close>, each the cleaned value of the field \<^verbatim>\<open>TITLE\<close>,
  \<^verbatim>\<open>YEAR\<close>, \<^verbatim>\<open>DOI\<close>, \<^verbatim>\<open>URL\<close>, or of the empty string
  when the field is missing. Cleaning a string that starts with an opening and ends
  with a closing brace removes these two braces and then the white space at both ends
  of what is left; any other string is kept as it is. An entry that fails to parse is
  skipped, and the entries before and after it are processed as without it.
\<close>

theorem publication_builder:
  assumes "parse entry = Some parsed" and "firstEntry parsed = JObj e"
  shows "newPublication parse entry =
           Some [(''title'', cleanValue (js_or (lookup e ''TITLE'') (JStr []))),
                 (''year'', cleanValue (js_or (lookup e ''YEAR'') (JStr []))),
                 (''doi'', cleanValue (js_or (lookup e ''DOI'') (JStr []))),
                 (''url'', cleanValue (js_or (lookup e ''URL'') (JStr [])))]
    \<and> (\<forall>mid. cleanValue (js_or (JStr (CHR ''{'' # mid @ ''}'')) (JStr [])) = JStr (trim mid))
    \<and> (\<forall>s. \<not> (startsWith s ''{'' \<and> endsWith s ''}'')
          \<longrightarrow> cleanValue (js_or (JStr s) (JStr [])) = JStr s)
    \<and> cleanValue (js_or JUndefined (JStr [])) = JStr []
    \<and> (\<forall>before bad after. newPublication parse bad = None \<longrightarrow>
          publicationsLoop parse (before @ bad # after) []
            = publicationsLoop parse before [] @ publicationsLoop parse after [])
    \<and> (\<forall>before after.
          publicationsLoop parse (before @ entry # after) []
            = publicationsLoop parse before []
              @ [[(''title'', cleanValue (js_or (lookup e ''TITLE'') (JStr []))),
                  (''year'', cleanValue (js_or (lookup e ''YEAR'') (JStr []))),
                  (''doi'', cleanValue (js_or (lookup e ''DOI'') (JStr []))),
                  (''url'', cleanValue (js_or (lookup e ''URL'') (JStr [])))]]
              @ publicationsLoop parse after [])"
proof -
  have new: "newPublication parse entry =
           Some [(''title'', cleanValue (js_or (lookup e ''TITLE'') (JStr []))),
                 (''year'', cleanValue (js_or (lookup e ''YEAR'') (JStr []))),
                 (''doi'', cleanValue (js_or (lookup e ''DOI'') (JStr []))),
                 (''url'', cleanValue (js_or (lookup e ''URL'') (JStr [])))]"
    using assms by (simp add: newPublication_def cleanBracketsInObject_def)
  have braces: "cleanValue (js_or (JStr (CHR ''{'' # mid @ ''}'')) (JStr [])) = JStr (trim mid)"
    for mid
    using cleanValue_braces [of mid] by (simp add: js_or_def)
  have other: "cleanValue (js_or (JStr s) (JStr [])) = JStr s"
    if "\<not> (startsWith s ''{'' \<and> endsWith s ''}'')" for s
    using cleanValue_other [OF that] by (cases "s = []") (simp_all add: js_or_def)
  have missing: "cleanValue (js_or JUndefined (JStr [])) = JStr []"
    by (simp add: js_or_def cleanValue_def startsWith_def)
  have skip: "publicationsLoop parse (before @ bad # after) []
            = publicationsLoop parse before [] @ publicationsLoop parse after []"
    if "newPublication parse bad = None" for before bad after
    using that by (simp add: publicationsLoop_acc List.map_filter_def)
  have keep: "publicationsLoop parse (before @ entry # after) []
            = publicationsLoop parse before []
              @ [[(''title'', cleanValue (js_or (lookup e ''TITLE'') (JStr []))),
                  (''year'', cleanValue (js_or (lookup e ''YEAR'') (JStr []))),
                  (''doi'', cleanValue (js_or (lookup e ''DOI'') (JStr []))),
                  (''url'', cleanValue (js_or (lookup e ''URL'') (JStr [])))]]
              @ publicationsLoop parse after []" for before after
    using new by (simp add: publicationsLoop_acc List.map_filter_def)
  from new braces other missing skip keep show ?thesis by blast
qed

text \<open>
  The theorem at three entries: the first parses to the title \<^verbatim>\<open>{Foo Bar}\<close>,
  which becomes \<^verbatim>\<open>Foo Bar\<close>; the second makes the parser throw and is
  skipped; the third has a title without braces and a year.
\<close>

theorem publication_builder_witness:
  "extractJournalPublication
     (\<lambda>entry.
        if entry = ''@article{a, title = {{Foo Bar}}}''
        then Some [(''A'', JObj [(''entryType'', JStr ''ARTICLE''),
                                 (''TITLE'', JStr ''{Foo Bar}'')])]
        else if entry = ''@article{c, title = {Plain}, year = 2020}''
        then Some [(''C'', JObj [(''entryType'', JStr ''ARTICLE''),
                                 (''TITLE'', JStr ''Plain''), (''YEAR'', JStr ''2020'')])]
        else None)
     (\<lambda>s. s)
     (JStr ''@article{a, title = {{Foo Bar}}} @article{b,} @article{c, title = {Plain}, year = 2020}'')
   = [[(''title'', JStr ''Foo Bar''), (''year'', JStr []), (''doi'', JStr []), (''url'', JStr [])],
      [(''title'', JStr ''Plain''), (''year'', JStr ''2020''), (''doi'', JStr []),
       (''url'', JStr [])]]"
proof -
  let ?parse = "\<lambda>entry.
        if entry = ''@article{a, title = {{Foo Bar}}}''
        then Some [(''A'', JObj [(''entryType'', JStr ''ARTICLE''),
                                 (''TITLE'', JStr ''{Foo Bar}'')])]
        else if entry = ''@article{c, title = {Plain}, year = 2020}''
        then Some [(''C'', JObj [(''entryType'', JStr ''ARTICLE''),
                                 (''TITLE'', JStr ''Plain''), (''YEAR'', JStr ''2020'')])]
        else None"
  have entries: "extractBibTeXEntries (\<lambda>s. s)
      (JStr ''@article{a, title = {{Foo Bar}}} @article{b,} @article{c, title = {Plain}, year = 2020}'')
    = [''@article{a, title = {{Foo Bar}}}'', ''@article{b,}'',
       ''@article{c, title = {Plain}, year = 2020}'']"
    by (simp add: extractBibTeXEntries_def matchStart_def stripKeyword_def upperChar_def
        isSpace_def)
  have h1: "?parse ''@article{a, title = {{Foo Bar}}}''
      = Some [(''A'', JObj [(''entryType'', JStr ''ARTICLE''), (''TITLE'', JStr ''{Foo Bar}'')])]"
    by simp
  have h2: "firstEntry [(''A'', JObj [(''entryType'', JStr ''ARTICLE''),
                                      (''TITLE'', JStr ''{Foo Bar}'')])]
      = JObj [(''entryType'', JStr ''ARTICLE''), (''TITLE'', JStr ''{Foo Bar}'')]"
    by (simp add: firstEntry_def lookup_def)
  from publication_builder [of ?parse, OF h1 h2]
  have first: "newPublication ?parse ''@article{a, title = {{Foo Bar}}}''
      = Some [(''title'', JStr ''Foo Bar''), (''year'', JStr []), (''doi'', JStr []),
              (''url'', JStr [])]"
    by (simp add: lookup_def js_or_def cleanValue_def startsWith_def endsWith_def trim_def
        isSpace_def)
  have second: "newPublication ?parse ''@article{b,}'' = None"
    by (simp add: newPublication_def)
  have third: "newPublication ?parse ''@article{c, title = {Plain}, year = 2020}''
      = Some [(''title'', JStr ''Plain''), (''year'', JStr ''2020''), (''doi'', JStr []),
              (''url'', JStr [])]"
    by (simp add: newPublication_def firstEntry_def lookup_def js_or_def cleanBracketsInObject_def
        cleanValue_def startsWith_def endsWith_def)
  show ?thesis
    unfolding extractJournalPublication_def entries
    by (simp only: publicationsLoop.simps first second third option.case append.simps)
qed

text \<open>
  The claim as stated fails in "removing both and nothing else": the white space next
  to the braces is removed as well.
\<close>

theorem cleanBracketsInObject_trims:
  "cleanBracketsInObject [(''title'', JStr ''{ Foo Bar }'')] = [(''title'', JStr ''Foo Bar'')]"
  by (simp add: cleanBracketsInObject_def cleanValue_def startsWith_def endsWith_def trim_def
      isSpace_def)

subsection \<open>Branch name generator\<close>

lemma digit_char:
  assumes "d < 10"
  shows "isDigit (''0123456789'' ! d)" and "of_char (''0123456789'' ! d) - 48 = d"
proof -
  from assms have "d = 0 \<or> d = 1 \<or> d = 2 \<or> d = 3 \<or> d = 4 \<or> d = 5 \<or> d = 6 \<or> d = 7
      \<or> d = 8 \<or> d = 9" by arith
  then show "isDigit (''0123456789'' ! d)" and "of_char (''0123456789'' ! d) - 48 = d"
    by (auto simp: isDigit_def)
qed

lemma digitsValue_snoc: "digitsValue (ds @ [c]) = 10 * digitsValue ds + (of_char c - 48)"
  by (simp add: digitsValue_def)

lemma decimal_digits: "decimal n \<noteq> [] \<and> list_all isDigit (decimal n) \<and> digitsValue (decimal n) = n"
proof (induction n rule: decimal.induct)
  case (1 n)
  show ?case
  proof (cases "n < 10")
    case True
    then have "decimal n = [''0123456789'' ! n]" by (simp add: decimal.simps)
    with digit_char [OF True] show ?thesis by (simp add: digitsValue_def)
  next
    case False
    then have d: "decimal n = decimal (n div 10) @ [''0123456789'' ! (n mod 10)]"
      by (subst decimal.simps) simp
    have "n mod 10 < 10" by simp
    note dc = digit_char [OF this]
    from "1.IH" [OF False] d dc show ?thesis
      by (simp add: digitsValue_snoc)
  qed
qed

lemma matchEvaluator_generated:
  "matchEvaluator (''evaluator-'' @ decimal k) = Some (Some (decimal k))"
proof -
  have "''evaluator-'' @ decimal k \<noteq> ''evaluator''" by simp
  then show ?thesis using decimal_digits [of k] by (simp add: matchEvaluator_def)
qed

lemma evaluatorNumber_generated: "evaluatorNumber (''evaluator-'' @ decimal k) = Some k"
  unfolding evaluatorNumber_def matchEvaluator_generated
  using decimal_digits [of k] by simp

lemma toDouble_small: "n < 2 ^ 53 \<Longrightarrow> toDouble n = n"
  by (simp add: toDouble_def)

lemma bitLength_power: "bitLength (2 ^ k) = Suc k"
proof (induction k)
  case 0
  show ?case by (simp add: bitLength.simps)
next
  case (Suc k)
  have "bitLength (2 ^ Suc k) = Suc (bitLength (2 ^ k))"
    by (subst bitLength.simps) simp
  with Suc show ?case by simp
qed

lemma toDouble_limit: "toDouble (2 ^ 53) = 2 ^ 53"
proof -
  have bits: "bitLength (2 ^ 53) - 53 = 1" by (simp only: bitLength_power)
  show ?thesis unfolding toDouble_def Let_def bits by simp
qed

lemma toDouble_safe: "n \<le> 2 ^ 53 \<Longrightarrow> toDouble n = n"
  using toDouble_small [of n] toDouble_limit by (cases "n = 2 ^ 53") auto

lemma fold_max: "fold max ns (n :: nat) = Max (set (n # ns))"
  by (simp only: Max.set_eq_fold)

lemma branchNumber_safe:
  assumes "\<forall>n. evaluatorNumber b = Some n \<longrightarrow> n < 2 ^ 53"
  shows "branchNumber (JStr b) = evaluatorNumber b"
  using assms
  by (auto simp: branchNumber_def evaluatorNumber_def toDouble_small split: option.splits)

lemma map_filter_set: "set (List.map_filter f xs) = {y. \<exists>x\<in>set xs. f x = Some y}"
  by (induction xs) (auto split: option.splits)

text \<open>
  Claim C10, as amended. For every array of branch-name strings in which every
  evaluator number is below \<open>2^53\<close> (at most \<^verbatim>\<open>Number.MAX_SAFE_INTEGER\<close>),
  \<^verbatim>\<open>generateBranchName\<close> returns \<^verbatim>\<open>evaluator-k\<close> with \<open>k \<ge> 1\<close>,
  and this name is not an element of the array: \<open>k\<close> is 1 when no branch is an
  evaluator branch, and otherwise one more than the greatest evaluator number, the bare
  \<^verbatim>\<open>evaluator\<close> counting as 0. An argument that is not an array makes the
  function throw.
\<close>

theorem generateBranchName_fresh:
  assumes "\<forall>b\<in>set names. \<forall>n. evaluatorNumber b = Some n \<longrightarrow> n < 2 ^ 53"
  shows "\<exists>k. generateBranchName (JArr (map JStr names)) = Some (''evaluator-'' @ decimal k)
     \<and> 1 \<le> k
     \<and> ''evaluator-'' @ decimal k \<notin> set names
     \<and> ((\<forall>b\<in>set names. evaluatorNumber b = None) \<longrightarrow> k = 1)
     \<and> ((\<exists>b\<in>set names. evaluatorNumber b \<noteq> None) \<longrightarrow>
           (\<exists>b\<in>set names. evaluatorNumber b = Some (k - 1))
         \<and> (\<forall>b\<in>set names. \<forall>n. evaluatorNumber b = Some n \<longrightarrow> n < k))
     \<and> (\<forall>v. (\<forall>xs. v \<noteq> JArr xs) \<longrightarrow> generateBranchName v = None)"
proof -
  let ?ns = "List.map_filter branchNumber (map JStr names)"
  let ?k = "nextNumber ?ns"
  have bn: "branchNumber (JStr b) = evaluatorNumber b" if "b \<in> set names" for b
    using assms that by (intro branchNumber_safe) blast
  have ns: "set ?ns = {n. \<exists>b\<in>set names. evaluatorNumber b = Some n}"
    using bn by (auto simp: map_filter_set)
  have small: "n < 2 ^ 53" if "n \<in> set ?ns" for n
    using that assms ns by auto
  have run: "generateBranchName (JArr (map JStr names)) = Some (''evaluator-'' @ decimal ?k)"
    by (simp add: generateBranchName_def)
  have none: "?k = 1" if "\<forall>b\<in>set names. evaluatorNumber b = None"
  proof -
    from that ns have "set ?ns = {}" by auto
    then show ?thesis by (simp add: nextNumber_def)
  qed
  have some: "?k = Max (set ?ns) + 1" if "?ns \<noteq> []"
  proof -
    from that obtain n rest where nr: "?ns = n # rest" by (cases ?ns) auto
    have "Max (set ?ns) \<in> set ?ns" using that by (intro Max_in) auto
    then have "Max (set ?ns) + 1 \<le> 2 ^ 53" using small by fastforce
    then show ?thesis using nr by (simp add: nextNumber_def fold_max toDouble_safe)
  qed
  have pos: "1 \<le> ?k"
  proof (cases "?ns = []")
    case True
    then show ?thesis by (simp add: nextNumber_def)
  next
    case False
    from some [OF this] show ?thesis by simp
  qed
  have above: "n < ?k" if "n \<in> set ?ns" for n
  proof -
    from that have ne: "?ns \<noteq> []" by auto
    have "n \<le> Max (set ?ns)" using that by (intro Max_ge) auto
    with some [OF ne] show ?thesis by simp
  qed
  have fresh: "''evaluator-'' @ decimal ?k \<notin> set names"
  proof
    assume "''evaluator-'' @ decimal ?k \<in> set names"
    with ns evaluatorNumber_generated [of ?k] have "?k \<in> set ?ns" by auto
    from above [OF this] show False by simp
  qed
  have existing: "(\<exists>b\<in>set names. evaluatorNumber b = Some (?k - 1))
         \<and> (\<forall>b\<in>set names. \<forall>n. evaluatorNumber b = Some n \<longrightarrow> n < ?k)"
    if "\<exists>b\<in>set names. evaluatorNumber b \<noteq> None"
  proof -
    from that ns have ne: "?ns \<noteq> []" by auto
    have "Max (set ?ns) \<in> set ?ns" using ne by (intro Max_in) auto
    with some [OF ne] ns have "\<exists>b\<in>set names. evaluatorNumber b = Some (?k - 1)" by auto
    moreover have "\<forall>b\<in>set names. \<forall>n. evaluatorNumber b = Some n \<longrightarrow> n < ?k"
      using above ns by auto
    ultimately show ?thesis by blast
  qed
  have other: "generateBranchName v = None" if "\<forall>xs. v \<noteq> JArr xs" for v
    using that by (cases v) (simp_all add: generateBranchName_def)
  from run pos fresh none existing other show ?thesis by blast
qed

text \<open>The theorem at the example of the documentation of the function.\<close>

theorem generateBranchName_fresh_witness:
  "generateBranchName (JArr (map JStr [''master'', ''evaluator'', ''evaluator-1'']))
     = Some ''evaluator-2''
   \<and> ''evaluator-2'' \<notin> set [''master'', ''evaluator'', ''evaluator-1'']"
proof -
  have h: "\<forall>b\<in>set [''master'', ''evaluator'', ''evaluator-1''].
             \<forall>n. evaluatorNumber b = Some n \<longrightarrow> n < 2 ^ 53"
    by (simp add: evaluatorNumber_def matchEvaluator_def isDigit_def digitsValue_def)
  from generateBranchName_fresh [OF h] obtain k where
    "generateBranchName (JArr (map JStr [''master'', ''evaluator'', ''evaluator-1'']))
       = Some (''evaluator-'' @ decimal k)"
    by blast
  moreover have "generateBranchName (JArr (map JStr [''master'', ''evaluator'', ''evaluator-1'']))
       = Some ''evaluator-2''"
    by (simp add: generateBranchName_def List.map_filter_def branchNumber_def
        matchEvaluator_def isDigit_def digitsValue_def toDouble_def nextNumber_def decimal.simps)
  ultimately show ?thesis by simp
qed

text \<open>
  The claim as stated fails where doubles stop being exact: the successor of \<open>2^53\<close>
  rounds back to \<open>2^53\<close>, and the name returned is the one that exists.
\<close>

theorem generateBranchName_collides:
  "generateBranchName (JArr [JStr ''evaluator-9007199254740992''])
     = Some ''evaluator-9007199254740992''"
  by (simp add: generateBranchName_def List.map_filter_def branchNumber_def matchEvaluator_def
      isDigit_def digitsValue_def toDouble_def nextNumber_def decimal.simps bitLength.simps)

end
